theory Spec2Isabelle
  imports Complex_Main "HOL-Library.Sublist"
begin

section \<open>Strings\<close>

text \<open>
  The text of a page, the dates and the lines of standard output are Python \<open>str\<close> values
  of any content: lists of Unicode code points. File paths are modelled as strings of the
  code points below 256, where \<open>str.lower\<close> maps every character to one character;
  \<open>uni\<close> gives the code points of such a string.
\<close>

type_synonym ustring = "nat list"

definition uni :: "string \<Rightarrow> ustring" where
  "uni s = map of_char s"

text \<open>
  On a \<open>str\<close>, the class \<open>\d\<close> of the \<open>re\<close> module holds the decimal digits of Unicode
  (category Nd), not the ASCII digits alone: the ranges below are those of Unicode 14.0.
  The separators \<open>.\<close> and \<open>/\<close> are the code points 46 and 47.
\<close>

definition digit_ranges :: "(nat \<times> nat) list" where
  "digit_ranges =
     [(48, 57), (1632, 1641), (1776, 1785), (1984, 1993), (2406, 2415), (2534, 2543),
      (2662, 2671), (2790, 2799), (2918, 2927), (3046, 3055), (3174, 3183), (3302, 3311),
      (3430, 3439), (3558, 3567), (3664, 3673), (3792, 3801), (3872, 3881), (4160, 4169),
      (4240, 4249), (6112, 6121), (6160, 6169), (6470, 6479), (6608, 6617), (6784, 6793),
      (6800, 6809), (6992, 7001), (7088, 7097), (7232, 7241), (7248, 7257), (42528, 42537),
      (43216, 43225), (43264, 43273), (43472, 43481), (43504, 43513), (43600, 43609),
      (44016, 44025), (65296, 65305), (66720, 66729), (68912, 68921), (69734, 69743),
      (69872, 69881), (69942, 69951), (70096, 70105), (70384, 70393), (70736, 70745),
      (70864, 70873), (71248, 71257), (71360, 71369), (71472, 71481), (71904, 71913),
      (72016, 72025), (72784, 72793), (73040, 73049), (73120, 73129), (92768, 92777),
      (92864, 92873), (93008, 93017), (120782, 120831), (123200, 123209), (123632, 123641),
      (125264, 125273), (130032, 130041)]"

definition is_digit :: "nat \<Rightarrow> bool" where
  "is_digit c \<longleftrightarrow> list_ex (\<lambda>(lo, hi). lo \<le> c \<and> c \<le> hi) digit_ranges"

definition is_sep :: "nat \<Rightarrow> bool" where
  "is_sep c \<longleftrightarrow> c = 46 \<or> c = 47"

text \<open>\<open>str.lower\<close>, character by character: A-Z and the capital letters of Latin-1.\<close>

definition lower_char :: "char \<Rightarrow> char" where
  "lower_char c =
     (let n = (of_char c :: nat)
      in if (65 \<le> n \<and> n \<le> 90) \<or> (192 \<le> n \<and> n \<le> 214) \<or> (216 \<le> n \<and> n \<le> 222)
         then char_of (n + 32) else c)"

definition lower :: "string \<Rightarrow> string" where
  "lower s = map lower_char s"

text \<open>\<open>s.endswith(t)\<close> and \<open>k in s\<close> (substring test).\<close>

definition endswith :: "string \<Rightarrow> string \<Rightarrow> bool" where
  "endswith s t \<longleftrightarrow> suffix t s"

fun contains :: "string \<Rightarrow> string \<Rightarrow> bool" where
  "contains k [] = (k = [])"
| "contains k (c # cs) = (prefix k (c # cs) \<or> contains k cs)"

section \<open>The date pattern and \<open>re.finditer\<close>\<close>

text \<open>
  The pattern \<open>(\d{2}[./]\d{2}[./]\d{4})\<close> is a sequence of ten character classes, so a
  match at a position is decided by the ten characters there.
\<close>

datatype cls = Digit | Sep

fun in_cls :: "cls \<Rightarrow> nat \<Rightarrow> bool" where
  "in_cls Digit c = is_digit c"
| "in_cls Sep c = is_sep c"

fun match_prefix :: "cls list \<Rightarrow> ustring \<Rightarrow> bool" where
  "match_prefix [] s = True"
| "match_prefix (k # ks) [] = False"
| "match_prefix (k # ks) (c # cs) = (in_cls k c \<and> match_prefix ks cs)"

definition date_pattern :: "cls list" where
  "date_pattern = [Digit, Digit, Sep, Digit, Digit, Sep, Digit, Digit, Digit, Digit]"

text \<open>
  \<open>re.finditer\<close> scans from left to right: where the pattern matches, it yields the match
  (start offset and \<open>group(0)\<close>) and resumes behind it; elsewhere it moves on by one
  character. Matches never overlap.
\<close>

fun finditer :: "nat \<Rightarrow> ustring \<Rightarrow> (nat \<times> ustring) list" where
  "finditer pos [] = []"
| "finditer pos (c # cs) =
     (if match_prefix date_pattern (c # cs)
      then (pos, take 10 (c # cs)) # finditer (pos + 10) (drop 9 cs)
      else finditer (Suc pos) cs)"

text \<open>
  \<open>matches = list(re.finditer(date_pattern, text))\<close>, then \<open>if matches:\<close> and
  \<open>matches[-1].group(0)\<close>: the step both entry points share (main.py, lines 49-53;
  pdf_date_replacer.py, lines 37-43).
\<close>

definition last_date :: "ustring \<Rightarrow> ustring option" where
  "last_date text =
     (let matches = finditer 0 text
      in if matches \<noteq> [] then Some (snd (last matches)) else None)"

section \<open>Output path\<close>

text \<open>\<open>new_path = pdf_path[:-4] + '_new.pdf'\<close>; the slice is empty for a shorter path.\<close>

definition new_path :: "string \<Rightarrow> string" where
  "new_path pdf_path = take (length pdf_path - 4) pdf_path @ ''_new.pdf''"

section \<open>Pages, documents and the world\<close>

text \<open>
  A rectangle of the PDF library has the corners \<open>tl = (x0, y0)\<close> and \<open>br = (x1, y1)\<close>.
  Coordinates are taken as real numbers.
\<close>

record rect =
  x0 :: real
  y0 :: real
  x1 :: real
  y1 :: real

type_synonym point = "real \<times> real"

definition rect_tl :: "rect \<Rightarrow> point" where
  "rect_tl r = (x0 r, y0 r)"

definition rect_br :: "rect \<Rightarrow> point" where
  "rect_br r = (x1 r, y1 r)"

type_synonym colour = "int \<times> int \<times> int"

text \<open>
  The program edits a page only through three calls of the library. A page is what the
  program reads from it (its extracted text, the rectangles \<open>search_for\<close> returns for a
  string) and the editing calls it has received, in order.
\<close>

datatype page_call =
    AddRedactAnnot rect colour
  | ApplyRedactions
  | InsertText point ustring int colour

record page =
  ptext :: ustring
  hits :: "ustring \<Rightarrow> rect list"
  calls :: "page_call list"

definition get_text :: "page \<Rightarrow> ustring" where
  "get_text pg = ptext pg"

definition search_for :: "page \<Rightarrow> ustring \<Rightarrow> rect list" where
  "search_for pg s = hits pg s"

definition add_redact_annot :: "rect \<Rightarrow> colour \<Rightarrow> page \<Rightarrow> page" where
  "add_redact_annot r fill pg = pg\<lparr>calls := calls pg @ [AddRedactAnnot r fill]\<rparr>"

definition apply_redactions :: "page \<Rightarrow> page" where
  "apply_redactions pg = pg\<lparr>calls := calls pg @ [ApplyRedactions]\<rparr>"

definition insert_text :: "point \<Rightarrow> ustring \<Rightarrow> int \<Rightarrow> colour \<Rightarrow> page \<Rightarrow> page" where
  "insert_text pt s fontsize color pg = pg\<lparr>calls := calls pg @ [InsertText pt s fontsize color]\<rparr>"

type_synonym document = "page list"

datatype entry = Pdf document | Other

datatype error =
    OpenError string
  | IndexError
  | SaveError string
  | RemoveError string
  | UnicodeEncodeError

datatype dir = Dir "string list" "(string \<times> dir) list"

datatype status_text = FilesNotFound | Processing string | Done

datatype signal = Status status_text | Progress int | Finished

text \<open>
  The world outside the program: the files by path, the directory trees by path, which
  paths can be written and removed, the documents that are open, the lines on standard
  output with the non-ASCII characters its encoding has, the text \<open>str(e)\<close> of the
  exceptions, and the signals the worker thread has emitted.
\<close>

record world =
  files :: "string \<Rightarrow> entry option"
  folders :: "string \<Rightarrow> dir option"
  can_write :: "string \<Rightarrow> bool"
  can_remove :: "string \<Rightarrow> bool"
  open_docs :: "string list"
  stdout :: "ustring list"
  encodable :: "nat \<Rightarrow> bool"
  str_of :: "error \<Rightarrow> ustring"
  signals :: "signal list"

definition fitz_open :: "string \<Rightarrow> world \<Rightarrow> (error + document) \<times> world" where
  "fitz_open p w =
     (case files w p of
        Some (Pdf d) \<Rightarrow> (Inr d, w\<lparr>open_docs := p # open_docs w\<rparr>)
      | _ \<Rightarrow> (Inl (OpenError p), w))"

text \<open>\<open>doc[-1]\<close> raises on a document without pages.\<close>

definition last_page :: "document \<Rightarrow> error + page" where
  "last_page doc = (if doc = [] then Inl IndexError else Inr (last doc))"

definition doc_save :: "document \<Rightarrow> string \<Rightarrow> world \<Rightarrow> (error + unit) \<times> world" where
  "doc_save doc p w =
     (if can_write w p then (Inr (), w\<lparr>files := (files w)(p \<mapsto> Pdf doc)\<rparr>)
      else (Inl (SaveError p), w))"

definition doc_close :: "string \<Rightarrow> world \<Rightarrow> world" where
  "doc_close p w = w\<lparr>open_docs := remove1 p (open_docs w)\<rparr>"

definition os_remove :: "string \<Rightarrow> world \<Rightarrow> (error + unit) \<times> world" where
  "os_remove p w =
     (if files w p \<noteq> None \<and> can_remove w p then (Inr (), w\<lparr>files := (files w)(p := None)\<rparr>)
      else (Inl (RemoveError p), w))"

definition exists :: "string \<Rightarrow> world \<Rightarrow> bool" where
  "exists p w \<longleftrightarrow> files w p \<noteq> None"

text \<open>
  \<open>print\<close> raises UnicodeEncodeError (the result \<open>None\<close>) when the encoding of standard
  output lacks a character of the line; ASCII is in every such encoding.
\<close>

definition is_ascii :: "nat \<Rightarrow> bool" where
  "is_ascii c \<longleftrightarrow> c < 128"

definition py_print :: "ustring \<Rightarrow> world \<Rightarrow> world option" where
  "py_print s w =
     (if list_all (\<lambda>c. is_ascii c \<or> encodable w c) s then Some (w\<lparr>stdout := stdout w @ [s]\<rparr>)
      else None)"

section \<open>The GUI variant: \<open>PDFDateChangerThread.process_pdf\<close>\<close>

definition process_pdf :: "ustring \<Rightarrow> bool \<Rightarrow> string \<Rightarrow> world \<Rightarrow> (error + unit) \<times> world" where
  "process_pdf new_date delete_original pdf_path w =
     (case fitz_open pdf_path w of
        (Inl e, w1) \<Rightarrow> (Inl e, w1)
      | (Inr doc, w1) \<Rightarrow>
     (case last_page doc of
        Inl e \<Rightarrow> (Inl e, w1)
      | Inr page \<Rightarrow>
     (let text = get_text page;
          page' =
            (case last_date text of
               Some old_date \<Rightarrow>
                 (let rects = search_for page old_date
                  in if rects \<noteq> [] then
                       (let rect = last rects;
                            page1 = add_redact_annot rect (1, 1, 1) page;
                            page2 = apply_redactions page1
                        in insert_text (rect_tl rect) new_date 12 (0, 0, 0) page2)
                     else page)
             | None \<Rightarrow> page);
          doc' = butlast doc @ [page']
      in case doc_save doc' (new_path pdf_path) w1 of
           (Inl e, w2) \<Rightarrow> (Inl e, w2)
         | (Inr u, w2) \<Rightarrow>
             (let w3 = doc_close pdf_path w2
              in if delete_original then
                   (case os_remove pdf_path w3 of
                      (Inl e, w4) \<Rightarrow> (Inr (), w4)
                    | (Inr u', w4) \<Rightarrow> (Inr (), w4))
                 else (Inr (), w3)))))"

section \<open>The CLI variant: \<open>replace_date_in_pdf\<close> and \<open>main\<close>\<close>

text \<open>The statements inside \<open>try\<close>; \<open>Inl\<close> is an exception on its way to the handler.\<close>

definition try_body ::
  "string \<Rightarrow> ustring \<Rightarrow> ustring \<Rightarrow> world \<Rightarrow> (error + bool \<times> string option) \<times> world" where
  "try_body pdf_path old_date new_date w =
     (case fitz_open pdf_path w of
        (Inl e, w1) \<Rightarrow> (Inl e, w1)
      | (Inr doc, w1) \<Rightarrow>
     (case last_page doc of
        Inl e \<Rightarrow> (Inl e, w1)
      | Inr page \<Rightarrow>
     (let text = get_text page
      in case last_date text of
           Some found_old_date \<Rightarrow>
             if found_old_date = old_date then
               (let rects = search_for page old_date
                in if rects \<noteq> [] then
                     (let rect = last rects;
                          page1 = add_redact_annot rect (1, 1, 1) page;
                          page2 = apply_redactions page1;
                          new_position = (fst (rect_tl rect), snd (rect_br rect) + 5);
                          page3 = insert_text new_position new_date 12 (0, 0, 0) page2;
                          doc' = butlast doc @ [page3]
                      in case doc_save doc' (new_path pdf_path) w1 of
                           (Inl e, w2) \<Rightarrow> (Inl e, w2)
                         | (Inr u, w2) \<Rightarrow>
                       (let w3 = doc_close pdf_path w2
                        in case py_print (uni ''SUCCESS: Date replaced '' @ old_date @ uni '' -> '' @ new_date) w3 of
                             None \<Rightarrow> (Inl UnicodeEncodeError, w3)
                           | Some w4 \<Rightarrow>
                         (case py_print (uni ''SAVED: '' @ uni (new_path pdf_path)) w4 of
                            Some w5 \<Rightarrow> (Inr (True, Some (new_path pdf_path)), w5)
                          | None \<Rightarrow>
                              (case py_print (uni ''SAVED: [file with unicode characters]'') w4 of
                                 Some w5 \<Rightarrow> (Inr (True, Some (new_path pdf_path)), w5)
                               | None \<Rightarrow> (Inl UnicodeEncodeError, w4)))))
                   else
                     (let w2 = doc_close pdf_path w1
                      in case py_print (uni ''ERROR: Date '' @ old_date @ uni '' not found visually on last page'') w2 of
                           None \<Rightarrow> (Inl UnicodeEncodeError, w2)
                         | Some w3 \<Rightarrow> (Inr (False, None), w3)))
             else
               (let w2 = doc_close pdf_path w1
                in case py_print (uni ''ERROR: Expected date '' @ old_date @ uni '', but found '' @ found_old_date) w2 of
                     None \<Rightarrow> (Inl UnicodeEncodeError, w2)
                   | Some w3 \<Rightarrow> (Inr (False, None), w3))
         | None \<Rightarrow>
             (let w2 = doc_close pdf_path w1
              in case py_print (uni ''ERROR: No dates found on last page'') w2 of
                   None \<Rightarrow> (Inl UnicodeEncodeError, w2)
                 | Some w3 \<Rightarrow> (Inr (False, None), w3)))))"

text \<open>The handler \<open>except Exception as e\<close>; an exception raised inside it leaves the function.\<close>

definition except_handler :: "error \<Rightarrow> world \<Rightarrow> (error + bool \<times> string option) \<times> world" where
  "except_handler e w =
     (case py_print (uni ''ERROR: '' @ str_of w e) w of
        Some w1 \<Rightarrow> (Inr (False, None), w1)
      | None \<Rightarrow>
          (case py_print (uni ''ERROR: [unicode encoding error]'') w of
             Some w1 \<Rightarrow> (Inr (False, None), w1)
           | None \<Rightarrow> (Inl UnicodeEncodeError, w)))"

definition replace_date_in_pdf ::
  "string \<Rightarrow> ustring \<Rightarrow> ustring \<Rightarrow> world \<Rightarrow> (error + bool \<times> string option) \<times> world" where
  "replace_date_in_pdf pdf_path old_date new_date w =
     (case try_body pdf_path old_date new_date w of
        (Inl e, w1) \<Rightarrow> except_handler e w1
      | (Inr r, w1) \<Rightarrow> (Inr r, w1))"

text \<open>
  \<open>main\<close> after the arguments are parsed; the result is the exit status of the process.
  An exception that nothing catches ends the process with status 1.
\<close>

definition main :: "string \<Rightarrow> ustring \<Rightarrow> ustring \<Rightarrow> bool \<Rightarrow> world \<Rightarrow> int \<times> world" where
  "main pdf_path old_date new_date delete_original w =
     (if \<not> exists pdf_path w then
        (case py_print (uni ''ERROR: PDF file not found: '' @ uni pdf_path) w of
           None \<Rightarrow> (1, w)
         | Some w1 \<Rightarrow> (1, w1))
      else
        (case replace_date_in_pdf pdf_path old_date new_date w of
           (Inl e, w1) \<Rightarrow> (1, w1)
         | (Inr (success, np), w1) \<Rightarrow>
             if success then
               (case py_print (uni ''SUCCESS: PDF processed successfully'') w1 of
                  None \<Rightarrow> (1, w1)
                | Some w2 \<Rightarrow>
                    if delete_original then
                      (case (case os_remove pdf_path w2 of
                               (Inl e, w3) \<Rightarrow> (Inl e, w3)
                             | (Inr u, w3) \<Rightarrow>
                                 (case py_print (uni ''DELETED: Original file removed'') w3 of
                                    None \<Rightarrow> (Inl UnicodeEncodeError, w3)
                                  | Some w4 \<Rightarrow> (Inr (), w4))) of
                         (Inr u, w5) \<Rightarrow> (0, w5)
                       | (Inl e, w5) \<Rightarrow>
                           (case py_print (uni ''WARNING: Could not delete original file: '' @ str_of w5 e) w5 of
                              None \<Rightarrow> (1, w5)
                            | Some w6 \<Rightarrow> (0, w6)))
                    else (0, w2))
             else
               (case py_print (uni ''FAILED: Could not process PDF'') w1 of
                  None \<Rightarrow> (1, w1)
                | Some w2 \<Rightarrow> (1, w2))))"

section \<open>The batch driver: \<open>PDFDateChangerThread.run\<close>\<close>

text \<open>\<open>os.path.join\<close> and \<open>os.path.basename\<close>, with the separator \<open>/\<close>.\<close>

definition path_join :: "string \<Rightarrow> string \<Rightarrow> string" where
  "path_join a b =
     (if prefix ''/'' b then b
      else if a = [] \<or> suffix ''/'' a then a @ b
      else a @ ''/'' @ b)"

definition basename :: "string \<Rightarrow> string" where
  "basename p = rev (takeWhile (\<lambda>c. c \<noteq> CHR ''/'') (rev p))"

text \<open>\<open>os.walk\<close>, top down: a directory, then its subdirectories in their order.\<close>

fun os_walk :: "string \<Rightarrow> dir \<Rightarrow> (string \<times> string list \<times> string list) list" where
  "os_walk dirpath (Dir fs subs) =
     (dirpath, map fst subs, fs) #
     concat (map (\<lambda>nd. os_walk (path_join dirpath (fst nd)) (snd nd)) subs)"

definition walk :: "string \<Rightarrow> world \<Rightarrow> (string \<times> string list \<times> string list) list" where
  "walk root_folder w =
     (case folders w root_folder of None \<Rightarrow> [] | Some d \<Rightarrow> os_walk root_folder d)"

definition emit :: "signal \<Rightarrow> world \<Rightarrow> world" where
  "emit s w = w\<lparr>signals := signals w @ [s]\<rparr>"

text \<open>The first loop of \<open>run\<close>, which fills \<open>pdf_files\<close>.\<close>

definition wanted :: "string \<Rightarrow> string \<Rightarrow> bool" where
  "wanted keyword f \<longleftrightarrow> endswith (lower f) ''.pdf'' \<and> contains keyword f"

definition collect :: "string \<Rightarrow> (string \<times> string list \<times> string list) list \<Rightarrow> string list" where
  "collect keyword ws =
     concat (map (\<lambda>(subdir, ds, fs). map (path_join subdir) (filter (wanted keyword) fs)) ws)"

text \<open>
  \<open>int((idx + 1) / total * 100)\<close> is computed on floats: the quotient of the two integers
  is rounded to a double, and so is its product with 100, before \<open>int\<close> truncates.
  Rounding to a double is to the nearest, ties to even: a rational \<open>0 \<le> q < 2^53\<close> (here
  \<open>q\<close> is at most 100) is scaled by the power of two, at most \<open>2^1074\<close>, that brings it to
  \<open>2^52\<close> or above, rounded to an integer and scaled back.
\<close>

definition round_half_even :: "rat \<Rightarrow> int" where
  "round_half_even q =
     (let f = \<lfloor>q\<rfloor>; r = q - of_int f
      in if r < 1 / 2 then f else if 1 / 2 < r then f + 1 else if even f then f else f + 1)"

fun scale_exp :: "nat \<Rightarrow> rat \<Rightarrow> nat" where
  "scale_exp 0 q = 0"
| "scale_exp (Suc n) q = (if q < 2 ^ 52 then Suc (scale_exp n (2 * q)) else 0)"

definition fl :: "rat \<Rightarrow> rat" where
  "fl q = (let k = scale_exp 1074 q in of_int (round_half_even (q * 2 ^ k)) / 2 ^ k)"

definition progress_value :: "nat \<Rightarrow> nat \<Rightarrow> int" where
  "progress_value idx total_n = \<lfloor>fl (fl (of_nat (idx + 1) / of_nat total_n) * 100)\<rfloor>"

text \<open>The second loop of \<open>run\<close>; an exception of \<open>process_pdf\<close> ends the thread's \<open>run\<close>.\<close>

fun process_files ::
  "ustring \<Rightarrow> bool \<Rightarrow> nat \<Rightarrow> nat \<Rightarrow> string list \<Rightarrow> world \<Rightarrow> (error + unit) \<times> world" where
  "process_files new_date delete_original total_n idx [] w = (Inr (), w)"
| "process_files new_date delete_original total_n idx (pdf_path # rest) w =
     (case process_pdf new_date delete_original pdf_path
             (emit (Status (Processing (basename pdf_path))) w) of
        (Inl e, w1) \<Rightarrow> (Inl e, w1)
      | (Inr u, w1) \<Rightarrow>
          process_files new_date delete_original total_n (Suc idx) rest
            (emit (Progress (progress_value idx total_n)) w1))"

text \<open>
  The three status texts of \<open>run\<close> are Russian for "Files not found!", "Processing: "
  followed by the file's base name, and "Done!".
\<close>

definition run :: "string \<Rightarrow> ustring \<Rightarrow> string \<Rightarrow> bool \<Rightarrow> world \<Rightarrow> (error + unit) \<times> world" where
  "run root_folder new_date keyword delete_original w =
     (let pdf_files = collect keyword (walk root_folder w);
          total_n = length pdf_files
      in if total_n = 0 then
           (Inr (), emit Finished (emit (Progress 0) (emit (Status FilesNotFound) w)))
         else
           (case process_files new_date delete_original total_n 0 pdf_files w of
              (Inl e, w1) \<Rightarrow> (Inl e, w1)
            | (Inr u, w1) \<Rightarrow> (Inr (), emit Finished (emit (Status Done) w1))))"

section \<open>The output path in the specification's words\<close>

text \<open>
  The specification forms the output path by dropping the original extension and
  appending \<open>_new\<close> and the original extension. The extension is the one of
  \<open>os.path.splitext\<close>: it starts at the last dot of the last path component.
\<close>

definition splitext :: "string \<Rightarrow> string \<times> string" where
  "splitext p =
     (let r = rev p;
          e = takeWhile (\<lambda>c. c \<noteq> CHR ''.'' \<and> c \<noteq> CHR ''/'') r
      in case dropWhile (\<lambda>c. c \<noteq> CHR ''.'' \<and> c \<noteq> CHR ''/'') r of
           [] \<Rightarrow> (p, [])
         | c # stem \<Rightarrow> if c = CHR ''.'' then (rev stem, CHR ''.'' # rev e) else (p, []))"

definition spec_output_path :: "string \<Rightarrow> string" where
  "spec_output_path p = (case splitext p of (stem, ext) \<Rightarrow> stem @ ''_new'' @ ext)"

section \<open>Example inputs\<close>

definition box_a :: rect where
  "box_a = \<lparr>x0 = 72, y0 = 100, x1 = 130, y1 = 112\<rparr>"

definition box_b :: rect where
  "box_b = \<lparr>x0 = 300, y0 = 640, x1 = 358, y1 = 652\<rparr>"

text \<open>A page with two dates; the later one is drawn at two places.\<close>

definition dated_page :: page where
  "dated_page =
     \<lparr>ptext = uni ''tarihi: 01.03.2024, karar: 15.03.2024'',
      hits = (\<lambda>s. if s = uni ''15.03.2024'' then [box_a, box_b] else []),
      calls = []\<rparr>"

definition undated_page :: page where
  "undated_page = \<lparr>ptext = uni ''no date on this page'', hits = (\<lambda>s. []), calls = []\<rparr>"



text \<open>
  A world with one document, at \<open>report.pdf\<close>; every path can be written and removed, and
  standard output encodes ASCII only.
\<close>

definition desk :: "document \<Rightarrow> world" where
  "desk doc =
     \<lparr>files = [''report.pdf'' \<mapsto> Pdf doc], folders = Map.empty,
      can_write = (\<lambda>p. True), can_remove = (\<lambda>p. True),
      open_docs = [], stdout = [], encodable = (\<lambda>c. False),
      str_of = (\<lambda>e. uni ''error''), signals = []\<rparr>"

text \<open>
  A world whose document has a name outside ASCII (\<open>g\<close>, u with diaeresis, \<open>n.pdf\<close>) and
  cannot be removed; the text of the exception of \<open>os.remove\<close> ends in the path, as that of
  an OSError does.
\<close>

definition locked_path :: string where
  "locked_path = ''g'' @ [CHR 0xFC] @ ''n.pdf''"

definition locked_desk :: world where
  "locked_desk =
     \<lparr>files = [locked_path \<mapsto> Pdf [dated_page]], folders = Map.empty,
      can_write = (\<lambda>p. True), can_remove = (\<lambda>p. False),
      open_docs = [], stdout = [], encodable = (\<lambda>c. False),
      str_of = (\<lambda>e. case e of
                    RemoveError p \<Rightarrow> uni ''[Errno 13] Permission denied: '' @ uni p
                  | _ \<Rightarrow> uni ''error''),
      signals = []\<rparr>"

section \<open>The selected date is the last match\<close>

lemma match_prefix_length: "match_prefix ks s \<Longrightarrow> length ks \<le> length s"
  by (induction ks s rule: match_prefix.induct) auto

lemma match_prefix_take: "match_prefix ks s \<Longrightarrow> match_prefix ks (take (length ks) s)"
  by (induction ks s rule: match_prefix.induct) auto

lemma date_pattern_length: "length date_pattern = 10"
  by (simp add: date_pattern_def)

lemma finditer_item:
  "(k, d) \<in> set (finditer pos s) \<Longrightarrow>
     pos \<le> k \<and> k + 10 \<le> pos + length s \<and> d = take 10 (drop (k - pos) s) \<and>
     match_prefix date_pattern (drop (k - pos) s)"
proof (induction pos s rule: finditer.induct)
  case (1 pos)
  then show ?case by simp
next
  case (2 pos c cs)
  show ?case
  proof (cases "match_prefix date_pattern (c # cs)")
    case True
    note len = match_prefix_length [OF True]
    from "2.prems" True
    consider "k = pos" "d = take 10 (c # cs)" | "(k, d) \<in> set (finditer (pos + 10) (drop 9 cs))"
      by auto
    then show ?thesis
    proof cases
      case 1
      with True len show ?thesis by (simp add: date_pattern_length)
    next
      case 2
      from "2.IH"(1) [OF True 2] have ih: "pos + 10 \<le> k" "k + 10 \<le> pos + 10 + length (drop 9 cs)"
        "d = take 10 (drop (k - (pos + 10)) (drop 9 cs))"
        "match_prefix date_pattern (drop (k - (pos + 10)) (drop 9 cs))" by auto
      from ih(1) obtain n where n: "k = pos + 10 + n" by (metis le_Suc_ex)
      have eq: "drop (k - pos) (c # cs) = drop (k - (pos + 10)) (drop 9 cs)"
        unfolding n by (simp add: drop_Cons' add.commute)
      from ih len eq show ?thesis by (auto simp: date_pattern_length)
    qed
  next
    case False
    with "2.prems" have mem: "(k, d) \<in> set (finditer (Suc pos) cs)" by simp
    from "2.IH"(2) [OF False mem] have ih: "Suc pos \<le> k" "k + 10 \<le> Suc pos + length cs"
      "d = take 10 (drop (k - Suc pos) cs)" "match_prefix date_pattern (drop (k - Suc pos) cs)"
      by auto
    from ih(1) obtain n where n: "k = Suc pos + n" by (metis le_Suc_ex)
    have eq: "drop (k - pos) (c # cs) = drop (k - Suc pos) cs"
      unfolding n by (simp add: drop_Cons' add.commute)
    from ih eq show ?thesis by auto
  qed
qed

lemma finditer_sorted: "sorted_wrt (<) (map fst (finditer pos s))"
proof (induction pos s rule: finditer.induct)
  case (1 pos)
  then show ?case by simp
next
  case (2 pos c cs)
  show ?case
  proof (cases "match_prefix date_pattern (c # cs)")
    case True
    have "pos < fst m" if "m \<in> set (finditer (pos + 10) (drop 9 cs))" for m
      using finditer_item [of "fst m" "snd m" "pos + 10" "drop 9 cs"] that by simp
    with True "2.IH"(1) show ?thesis by auto
  next
    case False
    with "2.IH"(2) show ?thesis by simp
  qed
qed

lemma sorted_wrt_less_last:
  fixes xs :: "nat list"
  shows "sorted_wrt (<) xs \<Longrightarrow> x \<in> set xs \<Longrightarrow> x \<le> last xs"
  by (induction xs) (auto simp: less_imp_le)

lemma finditer_last_greatest:
  assumes "m \<in> set (finditer pos s)"
  shows "fst m \<le> fst (last (finditer pos s))"
proof -
  from assms have ne: "finditer pos s \<noteq> []" by auto
  have "fst m \<in> set (map fst (finditer pos s))" using assms by simp
  from sorted_wrt_less_last [OF finditer_sorted this]
  show ?thesis using ne by (simp add: last_map)
qed

lemma finditer_covers:
  "match_prefix date_pattern (drop j s) \<Longrightarrow>
     finditer pos s \<noteq> [] \<and> pos + j < fst (last (finditer pos s)) + 10"
proof (induction pos s arbitrary: j rule: finditer.induct)
  case (1 pos)
  then show ?case by (simp add: date_pattern_def)
next
  case (2 pos c cs)
  show ?case
  proof (cases "match_prefix date_pattern (c # cs)")
    case True
    let ?rest = "finditer (pos + 10) (drop 9 cs)"
    have fi: "finditer pos (c # cs) = (pos, take 10 (c # cs)) # ?rest" using True by simp
    show ?thesis
    proof (cases "j < 10")
      case True
      show ?thesis
      proof (cases "?rest = []")
        case True
        with fi \<open>j < 10\<close> show ?thesis by simp
      next
        case False
        then have "last ?rest \<in> set ?rest" by simp
        from finditer_item [of "fst (last ?rest)" "snd (last ?rest)" "pos + 10" "drop 9 cs"] this
        have "pos + 10 \<le> fst (last ?rest)" by simp
        with fi False \<open>j < 10\<close> show ?thesis by simp
      qed
    next
      case False
      then obtain n where n: "j = 10 + n" by (metis le_Suc_ex not_less)
      have eq: "drop j (c # cs) = drop (j - 10) (drop 9 cs)"
        unfolding n by (simp add: drop_Cons' add.commute)
      from "2.IH"(1) [OF True, of "j - 10"] "2.prems" eq
      have "?rest \<noteq> []" "pos + 10 + (j - 10) < fst (last ?rest) + 10" by auto
      with fi False show ?thesis by simp
    qed
  next
    case False
    with "2.prems" have "j \<noteq> 0" by (cases j) auto
    then have eq: "drop j (c # cs) = drop (j - 1) cs" by (cases j) auto
    from "2.IH"(2) [OF False, of "j - 1"] "2.prems" eq
    have "finditer (Suc pos) cs \<noteq> []" "Suc pos + (j - 1) < fst (last (finditer (Suc pos) cs)) + 10"
      by auto
    with False \<open>j \<noteq> 0\<close> show ?thesis by simp
  qed
qed

lemma last_date_is_last_match:
  assumes "\<exists>i. match_prefix date_pattern (drop i text)"
  shows "\<exists>k d. last_date text = Some d \<and> (k, d) \<in> set (finditer 0 text) \<and>
           (\<forall>m \<in> set (finditer 0 text). fst m \<le> k) \<and>
           d = take 10 (drop k text) \<and> match_prefix date_pattern d \<and>
           (\<forall>j. match_prefix date_pattern (drop j text) \<longrightarrow> j < k + 10)"
proof -
  from assms obtain i where i: "match_prefix date_pattern (drop i text)" ..
  let ?ms = "finditer 0 text"
  from finditer_covers [OF i, of 0] have ne: "?ms \<noteq> []" by simp
  obtain k d where kd: "last ?ms = (k, d)" by (cases "last ?ms")
  from ne kd have mem: "(k, d) \<in> set ?ms" by (metis last_in_set)
  from finditer_item [OF mem] have d: "d = take 10 (drop k text)"
    and m: "match_prefix date_pattern (drop k text)" by auto
  from match_prefix_take [OF m] d have md: "match_prefix date_pattern d"
    by (simp add: date_pattern_length)
  have gr: "\<forall>m \<in> set ?ms. fst m \<le> k"
    using finditer_last_greatest [of _ 0 "text"] kd by auto
  have cov: "\<forall>j. match_prefix date_pattern (drop j text) \<longrightarrow> j < k + 10"
    using finditer_covers [of _ "text" 0] kd by auto
  have "last_date text = Some d" using ne kd by (simp add: last_date_def)
  with mem gr d md cov show ?thesis by blast
qed

text \<open>
  Matches do not overlap: a substring that matches the pattern but starts inside an
  earlier match is not a match of \<open>re.finditer\<close>.
\<close>

lemma finditer_skips_overlap:
  "finditer 0 (uni ''01.02.2003.04.2005'') = [(0, (uni ''01.02.2003''))] \<and>
   match_prefix date_pattern (drop 8 (uni ''01.02.2003.04.2005''))"
  by (simp add: date_pattern_def is_digit_def digit_ranges_def uni_def is_sep_def)

section \<open>What the two procedures do to the world\<close>

lemma new_path_neq: "new_path p \<noteq> p"
proof
  assume "new_path p = p"
  then have "length (new_path p) = length p" by simp
  then show False by (simp add: new_path_def)
qed

lemma process_pdf_saved:
  assumes "files w p = Some (Pdf doc)" and "doc \<noteq> []" and "can_write w (new_path p)"
    and "last_date (get_text (last doc)) = Some d" and "search_for (last doc) d \<noteq> []"
  shows "fst (process_pdf nd del p w) = Inr () \<and>
         files (snd (process_pdf nd del p w)) (new_path p) =
           Some (Pdf (butlast doc @ [(last doc)\<lparr>calls := calls (last doc) @
             [AddRedactAnnot (last (search_for (last doc) d)) (1, 1, 1), ApplyRedactions,
              InsertText (rect_tl (last (search_for (last doc) d))) nd 12 (0, 0, 0)]\<rparr>]))"
  using assms new_path_neq [of p]
  by (simp add: process_pdf_def fitz_open_def last_page_def doc_save_def doc_close_def
      os_remove_def Let_def add_redact_annot_def apply_redactions_def insert_text_def)

lemma process_pdf_copied:
  assumes "files w p = Some (Pdf doc)" and "doc \<noteq> []" and "can_write w (new_path p)"
    and "last_date (get_text (last doc)) = None \<or>
         (\<exists>d. last_date (get_text (last doc)) = Some d \<and> search_for (last doc) d = [])"
  shows "fst (process_pdf nd del p w) = Inr () \<and>
         files (snd (process_pdf nd del p w)) (new_path p) = Some (Pdf doc)"
  using assms new_path_neq [of p]
  by (auto simp add: process_pdf_def fitz_open_def last_page_def doc_save_def doc_close_def
      os_remove_def Let_def)

lemma process_pdf_original:
  assumes "files w p = Some (Pdf doc)" and "doc \<noteq> []" and "can_write w (new_path p)"
  shows "files (snd (process_pdf nd del p w)) p =
           (if del \<and> can_remove w p then None else files w p)"
    and "open_docs (snd (process_pdf nd del p w)) = open_docs w"
  using assms new_path_neq [of p]
  by (auto simp add: process_pdf_def fitz_open_def last_page_def doc_save_def doc_close_def
      os_remove_def Let_def split: option.splits)

lemma py_print_ascii:
  "list_all is_ascii s \<Longrightarrow> py_print s w = Some (w\<lparr>stdout := stdout w @ [s]\<rparr>)"
  by (simp add: py_print_def list_all_iff)

lemma py_print_ok:
  "list_all (\<lambda>c. is_ascii c \<or> encodable w c) s \<Longrightarrow>
     py_print s w = Some (w\<lparr>stdout := stdout w @ [s]\<rparr>)"
  by (simp add: py_print_def)

lemma py_print_Some:
  "py_print s w = Some w' \<Longrightarrow> w' = w\<lparr>stdout := stdout w @ [s]\<rparr>"
  by (simp add: py_print_def split: if_splits)

lemma except_handler_result:
  "fst (except_handler e w) = Inr (False, None) \<and>
   files (snd (except_handler e w)) = files w \<and>
   open_docs (snd (except_handler e w)) = open_docs w \<and>
   can_remove (snd (except_handler e w)) = can_remove w \<and>
   encodable (snd (except_handler e w)) = encodable w \<and>
   str_of (snd (except_handler e w)) = str_of w"
proof -
  have a: "list_all is_ascii (uni ''ERROR: [unicode encoding error]'')"
    by (simp add: is_ascii_def uni_def)
  show ?thesis
    by (auto simp: except_handler_def py_print_ascii [OF a] dest: py_print_Some
        split: option.splits)
qed

lemma last_date_Some:
  assumes "last_date t = Some d"
  shows "length d = 10 \<and> match_prefix date_pattern d"
proof -
  from assms have ne: "finditer 0 t \<noteq> []" and d: "d = snd (last (finditer 0 t))"
    by (auto simp: last_date_def Let_def split: if_splits)
  obtain k where "(k, d) \<in> set (finditer 0 t)"
    using ne d by (metis last_in_set prod.collapse)
  from finditer_item [OF this] have dd: "d = take 10 (drop k t)"
    and m: "match_prefix date_pattern (drop k t)" by auto
  from match_prefix_length [OF m] dd have len: "length d = 10"
    by (simp add: date_pattern_length)
  from match_prefix_take [OF m] dd have md: "match_prefix date_pattern d"
    by (simp add: date_pattern_length)
  with len show ?thesis by simp
qed

lemma try_body_no_date:
  assumes "files w p = Some (Pdf doc)" and "doc \<noteq> []"
    and "last_date (get_text (last doc)) = None"
  shows "try_body p old nd w =
           (Inr (False, None), w\<lparr>stdout := stdout w @ [(uni ''ERROR: No dates found on last page'')]\<rparr>)"
proof -
  have a: "list_all is_ascii (uni ''ERROR: No dates found on last page'')"
    by (simp add: is_ascii_def uni_def)
  show ?thesis using assms
    by (simp add: try_body_def fitz_open_def last_page_def doc_close_def Let_def
        py_print_ascii [OF a])
qed

lemma try_body_mismatch:
  assumes "files w p = Some (Pdf doc)" and "doc \<noteq> []"
    and "last_date (get_text (last doc)) = Some found" and "found \<noteq> old"
  shows "try_body p old nd w =
           (case py_print ((uni ''ERROR: Expected date '') @ old @ (uni '', but found '') @ found) w of
              None \<Rightarrow> (Inl UnicodeEncodeError, w)
            | Some w3 \<Rightarrow> (Inr (False, None), w3))"
  using assms
  by (simp add: try_body_def fitz_open_def last_page_def doc_close_def Let_def py_print_def)

lemma try_body_no_rects:
  assumes "files w p = Some (Pdf doc)" and "doc \<noteq> []"
    and "last_date (get_text (last doc)) = Some old" and "search_for (last doc) old = []"
  shows "try_body p old nd w =
           (case py_print ((uni ''ERROR: Date '') @ old @ (uni '' not found visually on last page'')) w of
              None \<Rightarrow> (Inl UnicodeEncodeError, w)
            | Some w3 \<Rightarrow> (Inr (False, None), w3))"
  using assms
  by (simp add: try_body_def fitz_open_def last_page_def doc_close_def Let_def py_print_def)

lemma try_body_save_fails:
  assumes "files w p = Some (Pdf doc)" and "doc \<noteq> []"
    and "last_date (get_text (last doc)) = Some old" and "search_for (last doc) old \<noteq> []"
    and "\<not> can_write w (new_path p)"
  shows "try_body p old nd w = (Inl (SaveError (new_path p)), w\<lparr>open_docs := p # open_docs w\<rparr>)"
  using assms
  by (simp add: try_body_def fitz_open_def last_page_def doc_save_def Let_def)

lemma try_body_saved:
  assumes "files w p = Some (Pdf doc)" and "doc \<noteq> []"
    and "last_date (get_text (last doc)) = Some old" and "search_for (last doc) old \<noteq> []"
    and "can_write w (new_path p)"
  shows "files (snd (try_body p old nd w)) =
           (files w)(new_path p \<mapsto> Pdf (butlast doc @ [(last doc)\<lparr>calls := calls (last doc) @
             [AddRedactAnnot (last (search_for (last doc) old)) (1, 1, 1), ApplyRedactions,
              InsertText (x0 (last (search_for (last doc) old)),
                          y1 (last (search_for (last doc) old)) + 5) nd 12 (0, 0, 0)]\<rparr>])) \<and>
         open_docs (snd (try_body p old nd w)) = open_docs w \<and>
         can_remove (snd (try_body p old nd w)) = can_remove w \<and>
         encodable (snd (try_body p old nd w)) = encodable w \<and>
         str_of (snd (try_body p old nd w)) = str_of w \<and>
         (fst (try_body p old nd w) = Inr (True, Some (new_path p)) \<or>
          fst (try_body p old nd w) = Inl UnicodeEncodeError)"
  using assms
  by (auto simp add: try_body_def fitz_open_def last_page_def doc_save_def doc_close_def Let_def
      add_redact_annot_def apply_redactions_def insert_text_def rect_tl_def rect_br_def
      py_print_def split: option.splits)

lemma last_date_None:
  assumes "\<not> (\<exists>i. match_prefix date_pattern (drop i t))"
  shows "last_date t = None"
proof (rule ccontr)
  assume "last_date t \<noteq> None"
  then have "finditer 0 t \<noteq> []" by (auto simp: last_date_def Let_def split: if_splits)
  then obtain k d where "(k, d) \<in> set (finditer 0 t)"
    by (metis last_in_set prod.collapse)
  from finditer_item [OF this] have "match_prefix date_pattern (drop k t)" by simp
  with assms show False by blast
qed

lemma replace_no_date:
  assumes "files w p = Some (Pdf doc)" and "doc \<noteq> []"
    and "last_date (get_text (last doc)) = None"
  shows "replace_date_in_pdf p old nd w =
           (Inr (False, None), w\<lparr>stdout := stdout w @ [(uni ''ERROR: No dates found on last page'')]\<rparr>)"
  by (simp add: replace_date_in_pdf_def try_body_no_date [OF assms])

section \<open>A last page without a date\<close>

text \<open>
  C2, as stated, fails for the GUI variant: on a last page without a date,
  \<open>process_pdf\<close> raises nothing and writes the output file, a copy of the document.
\<close>

theorem gui_saves_without_date:
  "\<not> (\<exists>i. match_prefix date_pattern (drop i (get_text undated_page))) \<and>
   fst (process_pdf (uni ''20.03.2024'') False ''report.pdf'' (desk [undated_page])) = Inr () \<and>
   files (desk [undated_page]) ''report_new.pdf'' = None \<and>
   files (snd (process_pdf (uni ''20.03.2024'') False ''report.pdf'' (desk [undated_page])))
     ''report_new.pdf'' = Some (Pdf [undated_page])"
proof -
  have "last_date (get_text undated_page) = None"
    by (simp add: last_date_def get_text_def undated_page_def date_pattern_def is_digit_def digit_ranges_def uni_def
        is_sep_def)
  then have m: "\<not> (\<exists>i. match_prefix date_pattern (drop i (get_text undated_page)))"
    using finditer_covers [of _ "get_text undated_page" 0] by (auto simp: last_date_def)
  have "fst (process_pdf (uni ''20.03.2024'') False ''report.pdf'' (desk [undated_page])) = Inr () \<and>
   files (desk [undated_page]) ''report_new.pdf'' = None \<and>
   files (snd (process_pdf (uni ''20.03.2024'') False ''report.pdf'' (desk [undated_page])))
     ''report_new.pdf'' = Some (Pdf [undated_page])"
    by (simp add: process_pdf_def fitz_open_def last_page_def doc_save_def doc_close_def Let_def
        desk_def new_path_def get_text_def undated_page_def last_date_def date_pattern_def
        is_digit_def digit_ranges_def uni_def is_sep_def)
  with m show ?thesis by simp
qed

text \<open>
  C2, amended. In the CLI variant, a document whose last page holds no substring matching
  the date pattern makes \<open>replace_date_in_pdf\<close> return \<open>(False, None)\<close> after the line
  "ERROR: No dates found on last page", and \<open>main\<close> exit with status 1; nothing but
  standard output changes, so no output file is written and the document is closed.
\<close>

theorem cli_no_date_found:
  assumes "files w p = Some (Pdf doc)" and "doc \<noteq> []"
    and "\<not> (\<exists>i. match_prefix date_pattern (drop i (get_text (last doc))))"
  shows "replace_date_in_pdf p old nd w =
           (Inr (False, None), w\<lparr>stdout := stdout w @ [(uni ''ERROR: No dates found on last page'')]\<rparr>) \<and>
         main p old nd del w =
           (1, w\<lparr>stdout := stdout w @
                 [(uni ''ERROR: No dates found on last page''), (uni ''FAILED: Could not process PDF'')]\<rparr>)"
proof -
  have a: "list_all is_ascii (uni ''FAILED: Could not process PDF'')" by (simp add: is_ascii_def uni_def)
  note r = replace_no_date [OF assms(1,2) last_date_None [OF assms(3)], of old nd]
  have "main p old nd del w =
          (1, w\<lparr>stdout := stdout w @
                [(uni ''ERROR: No dates found on last page''), (uni ''FAILED: Could not process PDF'')]\<rparr>)"
    using assms(1) by (simp add: main_def exists_def r py_print_ascii [OF a])
  with r show ?thesis by simp
qed

theorem cli_no_date_found_witness:
  "files (desk [undated_page]) ''report.pdf'' = Some (Pdf [undated_page]) \<and>
   [undated_page] \<noteq> [] \<and>
   \<not> (\<exists>i. match_prefix date_pattern (drop i (get_text (last [undated_page])))) \<and>
   (replace_date_in_pdf ''report.pdf'' (uni ''15.03.2024'') (uni ''20.03.2024'') (desk [undated_page]) =
      (Inr (False, None), (desk [undated_page])\<lparr>stdout := stdout (desk [undated_page]) @
         [(uni ''ERROR: No dates found on last page'')]\<rparr>) \<and>
    main ''report.pdf'' (uni ''15.03.2024'') (uni ''20.03.2024'') True (desk [undated_page]) =
      (1, (desk [undated_page])\<lparr>stdout := stdout (desk [undated_page]) @
         [(uni ''ERROR: No dates found on last page''), (uni ''FAILED: Could not process PDF'')]\<rparr>))"
proof -
  have f: "files (desk [undated_page]) ''report.pdf'' = Some (Pdf [undated_page])"
    by (simp add: desk_def)
  have n: "[undated_page] \<noteq> []" by simp
  have "last_date (get_text (last [undated_page])) = None"
    by (simp add: last_date_def get_text_def undated_page_def date_pattern_def is_digit_def digit_ranges_def uni_def
        is_sep_def)
  then have m: "\<not> (\<exists>i. match_prefix date_pattern (drop i (get_text (last [undated_page]))))"
    using finditer_covers [of _ "get_text (last [undated_page])" 0] by (auto simp: last_date_def)
  show ?thesis
    by (rule conjI [OF f conjI [OF n conjI [OF m cli_no_date_found [OF f n m]]]])
qed

section \<open>The CLI variant on a date other than the expected one\<close>

lemma replace_mismatch:
  assumes "files w p = Some (Pdf doc)" and "doc \<noteq> []"
    and "last_date (get_text (last doc)) = Some found" and "found \<noteq> old"
  shows "fst (replace_date_in_pdf p old nd w) = Inr (False, None) \<and>
         files (snd (replace_date_in_pdf p old nd w)) = files w \<and>
         open_docs (snd (replace_date_in_pdf p old nd w)) = open_docs w \<and>
         (list_all (\<lambda>c. is_ascii c \<or> encodable w c) (old @ found) \<longrightarrow>
            snd (replace_date_in_pdf p old nd w) =
              w\<lparr>stdout := stdout w @
                   [uni ''ERROR: Expected date '' @ old @ uni '', but found '' @ found]\<rparr>)"
proof (cases "py_print (uni ''ERROR: Expected date '' @ old @ uni '', but found '' @ found) w")
  case None
  then have np: "\<not> list_all (\<lambda>c. is_ascii c \<or> encodable w c) (old @ found)"
    by (auto simp: py_print_def is_ascii_def uni_def split: if_splits)
  from None have "replace_date_in_pdf p old nd w = except_handler UnicodeEncodeError w"
    by (simp add: replace_date_in_pdf_def try_body_mismatch [OF assms])
  with np show ?thesis by (auto simp add: except_handler_result)
next
  case (Some w3)
  note w3 = py_print_Some [OF Some]
  from Some have "replace_date_in_pdf p old nd w = (Inr (False, None), w3)"
    by (simp add: replace_date_in_pdf_def try_body_mismatch [OF assms])
  with w3 show ?thesis by simp
qed




section \<open>The edit: anchor, font and the single rectangle\<close>

lemma replace_saved:
  assumes "files w p = Some (Pdf doc)" and "doc \<noteq> []"
    and "last_date (get_text (last doc)) = Some old" and "search_for (last doc) old \<noteq> []"
    and "can_write w (new_path p)"
  shows "files (snd (replace_date_in_pdf p old nd w)) =
           (files w)(new_path p \<mapsto> Pdf (butlast doc @ [(last doc)\<lparr>calls := calls (last doc) @
             [AddRedactAnnot (last (search_for (last doc) old)) (1, 1, 1), ApplyRedactions,
              InsertText (x0 (last (search_for (last doc) old)),
                          y1 (last (search_for (last doc) old)) + 5) nd 12 (0, 0, 0)]\<rparr>]))"
proof -
  note t = try_body_saved [OF assms, of nd]
  show ?thesis
  proof (cases "try_body p old nd w")
    case (Pair r w1)
    with t show ?thesis
      by (cases r) (auto simp: replace_date_in_pdf_def except_handler_result)
  qed
qed

text \<open>
  C5. When a replacement is performed (the last page has a date, the library finds it
  drawn on the page, and for the CLI it is the expected date), the last call the page of
  the saved document has received inserts the new date with font size 12 and colour
  (0, 0, 0): in the GUI variant at the top-left corner of the chosen rectangle, in the CLI
  variant at the left edge and five units below the bottom edge.
\<close>

theorem insertion_anchor:
  assumes "files w p = Some (Pdf doc)" and "doc \<noteq> []" and "can_write w (new_path p)"
    and "last_date (get_text (last doc)) = Some d" and "search_for (last doc) d \<noteq> []"
    and "r = last (search_for (last doc) d)"
  shows "(\<exists>doc'. files (snd (process_pdf nd del p w)) (new_path p) = Some (Pdf doc') \<and>
            doc' \<noteq> [] \<and> calls (last doc') \<noteq> [] \<and>
            last (calls (last doc')) = InsertText (x0 r, y0 r) nd 12 (0, 0, 0)) \<and>
         (\<exists>doc'. files (snd (replace_date_in_pdf p d nd w)) (new_path p) = Some (Pdf doc') \<and>
            doc' \<noteq> [] \<and> calls (last doc') \<noteq> [] \<and>
            last (calls (last doc')) = InsertText (x0 r, y1 r + 5) nd 12 (0, 0, 0))"
proof -
  from process_pdf_saved [OF assms(1,2,3,4,5), of nd del] assms(6)
  have g: "\<exists>doc'. files (snd (process_pdf nd del p w)) (new_path p) = Some (Pdf doc') \<and>
            doc' \<noteq> [] \<and> calls (last doc') \<noteq> [] \<and>
            last (calls (last doc')) = InsertText (x0 r, y0 r) nd 12 (0, 0, 0)"
    by (simp add: rect_tl_def)
  from replace_saved [OF assms(1,2,4,5,3), of nd] assms(6)
  have c: "\<exists>doc'. files (snd (replace_date_in_pdf p d nd w)) (new_path p) = Some (Pdf doc') \<and>
            doc' \<noteq> [] \<and> calls (last doc') \<noteq> [] \<and>
            last (calls (last doc')) = InsertText (x0 r, y1 r + 5) nd 12 (0, 0, 0)"
    by simp
  from g c show ?thesis by (rule conjI)
qed

lemma dated_page_facts:
  "files (desk [dated_page]) ''report.pdf'' = Some (Pdf [dated_page])"
  "can_write (desk [dated_page]) (new_path ''report.pdf'')"
  "last_date (get_text (last [dated_page])) = Some (uni ''15.03.2024'')"
  "search_for (last [dated_page]) (uni ''15.03.2024'') \<noteq> []"
  "box_b = last (search_for (last [dated_page]) (uni ''15.03.2024''))"
  by (simp_all add: desk_def last_date_def get_text_def search_for_def dated_page_def
      date_pattern_def is_digit_def digit_ranges_def uni_def is_sep_def)

theorem insertion_anchor_witness:
  "files (desk [dated_page]) ''report.pdf'' = Some (Pdf [dated_page]) \<and>
   [dated_page] \<noteq> [] \<and>
   can_write (desk [dated_page]) (new_path ''report.pdf'') \<and>
   last_date (get_text (last [dated_page])) = Some (uni ''15.03.2024'') \<and>
   search_for (last [dated_page]) (uni ''15.03.2024'') \<noteq> [] \<and>
   box_b = last (search_for (last [dated_page]) (uni ''15.03.2024'')) \<and>
   (\<exists>doc'. files (snd (process_pdf (uni ''20.03.2024'') False ''report.pdf'' (desk [dated_page])))
              ''report_new.pdf'' = Some (Pdf doc') \<and>
            last (calls (last doc')) = InsertText (300, 640) (uni ''20.03.2024'') 12 (0, 0, 0)) \<and>
   (\<exists>doc'. files (snd (replace_date_in_pdf ''report.pdf'' (uni ''15.03.2024'') (uni ''20.03.2024'')
                      (desk [dated_page]))) ''report_new.pdf'' = Some (Pdf doc') \<and>
            last (calls (last doc')) = InsertText (300, 657) (uni ''20.03.2024'') 12 (0, 0, 0))"
proof -
  have n: "[dated_page] \<noteq> []" by simp
  have np: "new_path ''report.pdf'' = ''report_new.pdf''" by (simp add: new_path_def)
  from insertion_anchor [OF dated_page_facts(1) n dated_page_facts(2,3,4,5),
      of "(uni ''20.03.2024'')" False]
  show ?thesis using dated_page_facts n by (auto simp add: np box_b_def)
qed

section \<open>One rectangle is edited\<close>

lemma replace_not_saved:
  assumes "files w p = Some (Pdf doc)" and "doc \<noteq> []"
    and "last_date (get_text (last doc)) \<noteq> Some old \<or> search_for (last doc) old = []"
  shows "files (snd (replace_date_in_pdf p old nd w)) = files w"
proof (cases "last_date (get_text (last doc))")
  case None
  from replace_no_date [OF assms(1,2) None, of old nd] show ?thesis by simp
next
  case (Some found)
  show ?thesis
  proof (cases "found = old")
    case False
    from replace_mismatch [OF assms(1,2) Some False, of nd] show ?thesis by simp
  next
    case True
    with Some assms(3) have l: "last_date (get_text (last doc)) = Some old"
      and s: "search_for (last doc) old = []" by auto
    note t = try_body_no_rects [OF assms(1,2) l s, of nd]
    show ?thesis
    proof (cases "py_print ((uni ''ERROR: Date '') @ old @ (uni '' not found visually on last page'')) w")
      case None
      with t show ?thesis by (simp add: replace_date_in_pdf_def except_handler_result)
    next
      case (Some w3)
      from py_print_Some [OF Some] Some t show ?thesis
        by (simp add: replace_date_in_pdf_def)
    qed
  qed
qed

text \<open>
  C6. For a document that is processed, the pages before the last are saved as they were
  and the last page receives either no call at all or exactly three: one redaction
  annotation, on the last rectangle \<open>search_for\<close> returns for the one date chosen, the
  application of the redactions, and one insertion of text. No other rectangle of that
  list, and no rectangle of an earlier date, receives a call. The CLI variant saves
  nothing when it does not edit.
\<close>

theorem single_edit_site:
  assumes "files w p = Some (Pdf doc)" and "doc \<noteq> []" and "can_write w (new_path p)"
  shows "(\<exists>extra. files (snd (process_pdf nd del p w)) (new_path p) =
            Some (Pdf (butlast doc @ [(last doc)\<lparr>calls := calls (last doc) @ extra\<rparr>])) \<and>
          (extra = [] \<or>
           (\<exists>d. last_date (get_text (last doc)) = Some d \<and> search_for (last doc) d \<noteq> [] \<and>
              extra = [AddRedactAnnot (last (search_for (last doc) d)) (1, 1, 1), ApplyRedactions,
                       InsertText (rect_tl (last (search_for (last doc) d))) nd 12 (0, 0, 0)]))) \<and>
         (files (snd (replace_date_in_pdf p old nd w)) = files w \<or>
          last_date (get_text (last doc)) = Some old \<and> search_for (last doc) old \<noteq> [] \<and>
          files (snd (replace_date_in_pdf p old nd w)) =
            (files w)(new_path p \<mapsto> Pdf (butlast doc @ [(last doc)\<lparr>calls := calls (last doc) @
              [AddRedactAnnot (last (search_for (last doc) old)) (1, 1, 1), ApplyRedactions,
               InsertText (x0 (last (search_for (last doc) old)),
                           y1 (last (search_for (last doc) old)) + 5) nd 12 (0, 0, 0)]\<rparr>])))"
proof -
  have g: "\<exists>extra. files (snd (process_pdf nd del p w)) (new_path p) =
            Some (Pdf (butlast doc @ [(last doc)\<lparr>calls := calls (last doc) @ extra\<rparr>])) \<and>
          (extra = [] \<or>
           (\<exists>d. last_date (get_text (last doc)) = Some d \<and> search_for (last doc) d \<noteq> [] \<and>
              extra = [AddRedactAnnot (last (search_for (last doc) d)) (1, 1, 1), ApplyRedactions,
                       InsertText (rect_tl (last (search_for (last doc) d))) nd 12 (0, 0, 0)]))"
  proof (cases "\<exists>d. last_date (get_text (last doc)) = Some d \<and> search_for (last doc) d \<noteq> []")
    case True
    then obtain d where d: "last_date (get_text (last doc)) = Some d"
      "search_for (last doc) d \<noteq> []" by blast
    from process_pdf_saved [OF assms d, of nd del] d show ?thesis by blast
  next
    case False
    then have "last_date (get_text (last doc)) = None \<or>
      (\<exists>d. last_date (get_text (last doc)) = Some d \<and> search_for (last doc) d = [])"
      by (cases "last_date (get_text (last doc))") auto
    from process_pdf_copied [OF assms this, of nd del] assms(2)
    have "files (snd (process_pdf nd del p w)) (new_path p) =
            Some (Pdf (butlast doc @ [(last doc)\<lparr>calls := calls (last doc) @ []\<rparr>]))"
      by simp
    then show ?thesis by blast
  qed
  have c: "files (snd (replace_date_in_pdf p old nd w)) = files w \<or>
          last_date (get_text (last doc)) = Some old \<and> search_for (last doc) old \<noteq> [] \<and>
          files (snd (replace_date_in_pdf p old nd w)) =
            (files w)(new_path p \<mapsto> Pdf (butlast doc @ [(last doc)\<lparr>calls := calls (last doc) @
              [AddRedactAnnot (last (search_for (last doc) old)) (1, 1, 1), ApplyRedactions,
               InsertText (x0 (last (search_for (last doc) old)),
                           y1 (last (search_for (last doc) old)) + 5) nd 12 (0, 0, 0)]\<rparr>]))"
  proof (cases "last_date (get_text (last doc)) = Some old \<and> search_for (last doc) old \<noteq> []")
    case True
    with replace_saved [OF assms(1,2) _ _ assms(3), of old nd] show ?thesis by simp
  next
    case False
    then have "last_date (get_text (last doc)) \<noteq> Some old \<or> search_for (last doc) old = []"
      by simp
    from replace_not_saved [OF assms(1,2) this, of nd] show ?thesis by simp
  qed
  from g c show ?thesis by (rule conjI)
qed

theorem single_edit_site_witness:
  "files (desk [dated_page]) ''report.pdf'' = Some (Pdf [dated_page]) \<and>
   [dated_page] \<noteq> [] \<and>
   can_write (desk [dated_page]) (new_path ''report.pdf'') \<and>
   ((\<exists>extra. files (snd (process_pdf (uni ''20.03.2024'') False ''report.pdf'' (desk [dated_page])))
              (new_path ''report.pdf'') =
            Some (Pdf (butlast [dated_page] @
              [(last [dated_page])\<lparr>calls := calls (last [dated_page]) @ extra\<rparr>])) \<and>
          (extra = [] \<or>
           (\<exists>d. last_date (get_text (last [dated_page])) = Some d \<and>
              search_for (last [dated_page]) d \<noteq> [] \<and>
              extra = [AddRedactAnnot (last (search_for (last [dated_page]) d)) (1, 1, 1),
                       ApplyRedactions,
                       InsertText (rect_tl (last (search_for (last [dated_page]) d)))
                         (uni ''20.03.2024'') 12 (0, 0, 0)]))) \<and>
    (files (snd (replace_date_in_pdf ''report.pdf'' (uni ''15.03.2024'') (uni ''20.03.2024'')
                    (desk [dated_page]))) = files (desk [dated_page]) \<or>
          last_date (get_text (last [dated_page])) = Some (uni ''15.03.2024'') \<and>
          search_for (last [dated_page]) (uni ''15.03.2024'') \<noteq> [] \<and>
          files (snd (replace_date_in_pdf ''report.pdf'' (uni ''15.03.2024'') (uni ''20.03.2024'')
                    (desk [dated_page]))) =
            (files (desk [dated_page]))(new_path ''report.pdf'' \<mapsto> Pdf (butlast [dated_page] @
              [(last [dated_page])\<lparr>calls := calls (last [dated_page]) @
              [AddRedactAnnot (last (search_for (last [dated_page]) (uni ''15.03.2024''))) (1, 1, 1),
               ApplyRedactions,
               InsertText (x0 (last (search_for (last [dated_page]) (uni ''15.03.2024''))),
                           y1 (last (search_for (last [dated_page]) (uni ''15.03.2024''))) + 5)
                 (uni ''20.03.2024'') 12 (0, 0, 0)]\<rparr>])))) \<and>
   files (snd (process_pdf (uni ''20.03.2024'') False ''report.pdf'' (desk [dated_page])))
     ''report_new.pdf'' =
     Some (Pdf [dated_page\<lparr>calls := [AddRedactAnnot box_b (1, 1, 1), ApplyRedactions,
       InsertText (300, 640) (uni ''20.03.2024'') 12 (0, 0, 0)]\<rparr>])"
proof -
  have n: "[dated_page] \<noteq> []" by simp
  have e: "files (snd (process_pdf (uni ''20.03.2024'') False ''report.pdf'' (desk [dated_page])))
     ''report_new.pdf'' =
     Some (Pdf [dated_page\<lparr>calls := [AddRedactAnnot box_b (1, 1, 1), ApplyRedactions,
       InsertText (300, 640) (uni ''20.03.2024'') 12 (0, 0, 0)]\<rparr>])"
    using process_pdf_saved [OF dated_page_facts(1) n dated_page_facts(2,3,4),
        of "(uni ''20.03.2024'')" False] dated_page_facts(5)
    by (simp add: new_path_def dated_page_def search_for_def box_b_def rect_tl_def)
  show ?thesis
    by (rule conjI [OF dated_page_facts(1) conjI [OF n conjI [OF dated_page_facts(2)
          conjI [OF single_edit_site [OF dated_page_facts(1) n dated_page_facts(2)] e]]]])
qed

section \<open>The GUI variant saves whatever it finds\<close>

text \<open>
  C10. For a document that \<open>process_pdf\<close> opens (with a last page, and an output path that
  can be written), the procedure returns normally and the output path
  \<open>pdf_path[:-4] + '_new.pdf'\<close> holds a document afterwards; when the last page has no
  date, or the date has no rectangle, that document is the input unchanged. With the
  delete flag set, the original is gone whenever it can be removed.
\<close>

theorem gui_unconditional_save:
  assumes "files w p = Some (Pdf doc)" and "doc \<noteq> []" and "can_write w (new_path p)"
  shows "fst (process_pdf nd del p w) = Inr () \<and>
         (\<exists>doc'. files (snd (process_pdf nd del p w)) (new_path p) = Some (Pdf doc')) \<and>
         (last_date (get_text (last doc)) = None \<or>
          (\<exists>d. last_date (get_text (last doc)) = Some d \<and> search_for (last doc) d = []) \<longrightarrow>
            files (snd (process_pdf nd del p w)) (new_path p) = Some (Pdf doc)) \<and>
         (del \<and> can_remove w p \<longrightarrow> files (snd (process_pdf nd del p w)) p = None)"
proof -
  have a: "fst (process_pdf nd del p w) = Inr () \<and>
         (\<exists>doc'. files (snd (process_pdf nd del p w)) (new_path p) = Some (Pdf doc'))"
  proof (cases "\<exists>d. last_date (get_text (last doc)) = Some d \<and> search_for (last doc) d \<noteq> []")
    case True
    then obtain d where d: "last_date (get_text (last doc)) = Some d"
      "search_for (last doc) d \<noteq> []" by blast
    from process_pdf_saved [OF assms d, of nd del] show ?thesis by blast
  next
    case False
    then have "last_date (get_text (last doc)) = None \<or>
      (\<exists>d. last_date (get_text (last doc)) = Some d \<and> search_for (last doc) d = [])"
      by (cases "last_date (get_text (last doc))") auto
    from process_pdf_copied [OF assms this, of nd del] show ?thesis by blast
  qed
  have b: "last_date (get_text (last doc)) = None \<or>
          (\<exists>d. last_date (get_text (last doc)) = Some d \<and> search_for (last doc) d = []) \<longrightarrow>
            files (snd (process_pdf nd del p w)) (new_path p) = Some (Pdf doc)"
    using process_pdf_copied [OF assms, of nd del] by blast
  have c: "del \<and> can_remove w p \<longrightarrow> files (snd (process_pdf nd del p w)) p = None"
    using process_pdf_original(1) [OF assms, of nd del] by auto
  from a b c show ?thesis by blast
qed

theorem gui_unconditional_save_witness:
  "files (desk [undated_page]) ''report.pdf'' = Some (Pdf [undated_page]) \<and>
   [undated_page] \<noteq> [] \<and>
   can_write (desk [undated_page]) (new_path ''report.pdf'') \<and>
   last_date (get_text (last [undated_page])) = None \<and>
   can_remove (desk [undated_page]) ''report.pdf'' \<and>
   fst (process_pdf (uni ''20.03.2024'') True ''report.pdf'' (desk [undated_page])) = Inr () \<and>
   files (snd (process_pdf (uni ''20.03.2024'') True ''report.pdf'' (desk [undated_page])))
     (new_path ''report.pdf'') = Some (Pdf [undated_page]) \<and>
   files (snd (process_pdf (uni ''20.03.2024'') True ''report.pdf'' (desk [undated_page])))
     ''report.pdf'' = None"
proof -
  have f: "files (desk [undated_page]) ''report.pdf'' = Some (Pdf [undated_page])"
    by (simp add: desk_def)
  have n: "[undated_page] \<noteq> []" by simp
  have cw: "can_write (desk [undated_page]) (new_path ''report.pdf'')" by (simp add: desk_def)
  have l: "last_date (get_text (last [undated_page])) = None"
    by (simp add: last_date_def get_text_def undated_page_def date_pattern_def is_digit_def digit_ranges_def uni_def
        is_sep_def)
  have cr: "can_remove (desk [undated_page]) ''report.pdf''" by (simp add: desk_def)
  from gui_unconditional_save [OF f n cw, of "(uni ''20.03.2024'')" True] f n cw l cr
  show ?thesis by simp
qed

section \<open>Closing the document\<close>

lemma process_pdf_closes:
  "fst (process_pdf nd del p w) = Inr () \<Longrightarrow>
     open_docs (snd (process_pdf nd del p w)) = open_docs w"
  by (auto simp add: process_pdf_def fitz_open_def last_page_def doc_save_def doc_close_def
      os_remove_def Let_def split: option.splits entry.splits if_splits)

text \<open>
  C7 fails on the code. With an output path that cannot be written, \<open>doc.save\<close> raises
  after the document was opened: the CLI variant's handler returns \<open>(False, None)\<close> and the
  GUI variant lets the exception pass, and in both the document stays open.
\<close>

theorem save_failure_leaves_document_open:
  "open_docs ((desk [dated_page])\<lparr>can_write := (\<lambda>p. False)\<rparr>) = [] \<and>
   fst (replace_date_in_pdf ''report.pdf'' (uni ''15.03.2024'') (uni ''20.03.2024'')
          ((desk [dated_page])\<lparr>can_write := (\<lambda>p. False)\<rparr>)) = Inr (False, None) \<and>
   open_docs (snd (replace_date_in_pdf ''report.pdf'' (uni ''15.03.2024'') (uni ''20.03.2024'')
          ((desk [dated_page])\<lparr>can_write := (\<lambda>p. False)\<rparr>))) = [''report.pdf''] \<and>
   fst (process_pdf (uni ''20.03.2024'') False ''report.pdf''
          ((desk [dated_page])\<lparr>can_write := (\<lambda>p. False)\<rparr>)) = Inl (SaveError ''report_new.pdf'') \<and>
   open_docs (snd (process_pdf (uni ''20.03.2024'') False ''report.pdf''
          ((desk [dated_page])\<lparr>can_write := (\<lambda>p. False)\<rparr>))) = [''report.pdf'']"
  by (simp add: replace_date_in_pdf_def try_body_def except_handler_def py_print_def
      is_ascii_def uni_def process_pdf_def fitz_open_def last_page_def doc_save_def doc_close_def
      Let_def desk_def new_path_def get_text_def search_for_def dated_page_def last_date_def
      date_pattern_def is_digit_def digit_ranges_def is_sep_def)

section \<open>Deleting the original\<close>

lemma process_pdf_keeps_original: "files (snd (process_pdf nd False p w)) p = files w p"
  using new_path_neq [of p]
  by (auto simp add: process_pdf_def fitz_open_def last_page_def doc_save_def doc_close_def
      Let_def split: option.splits entry.splits)

lemma process_pdf_removes:
  assumes "fst (process_pdf nd True p w) = Inr ()" and "can_remove w p"
  shows "files (snd (process_pdf nd True p w)) p = None"
  using assms new_path_neq [of p]
  by (auto simp add: process_pdf_def fitz_open_def last_page_def doc_save_def doc_close_def
      os_remove_def Let_def split: option.splits entry.splits if_splits)

lemma process_pdf_swallows:
  assumes "\<not> can_remove w p"
  shows "process_pdf nd True p w = process_pdf nd False p w"
  using assms
  by (auto simp add: process_pdf_def fitz_open_def last_page_def doc_save_def doc_close_def
      os_remove_def Let_def split: option.splits entry.splits)

lemma try_body_open_fails:
  assumes "\<forall>doc. files w p \<noteq> Some (Pdf doc)"
  shows "try_body p old nd w = (Inl (OpenError p), w)"
  using assms by (auto simp add: try_body_def fitz_open_def split: option.splits entry.splits)

lemma try_body_no_page:
  assumes "files w p = Some (Pdf [])"
  shows "try_body p old nd w = (Inl IndexError, w\<lparr>open_docs := p # open_docs w\<rparr>)"
  using assms by (simp add: try_body_def fitz_open_def last_page_def)

lemma py_print_case_frame:
  "files (snd (case py_print s w of None \<Rightarrow> (Inl UnicodeEncodeError, w)
                | Some w3 \<Rightarrow> (Inr (False, None), w3))) = files w \<and>
   can_remove (snd (case py_print s w of None \<Rightarrow> (Inl UnicodeEncodeError, w)
                | Some w3 \<Rightarrow> (Inr (False, None), w3))) = can_remove w \<and>
   encodable (snd (case py_print s w of None \<Rightarrow> (Inl UnicodeEncodeError, w)
                | Some w3 \<Rightarrow> (Inr (False, None), w3))) = encodable w \<and>
   str_of (snd (case py_print s w of None \<Rightarrow> (Inl UnicodeEncodeError, w)
                | Some w3 \<Rightarrow> (Inr (False, None), w3))) = str_of w"
  by (simp add: py_print_def)

lemma try_body_frame:
  "files (snd (try_body p old nd w)) p = files w p \<and>
   can_remove (snd (try_body p old nd w)) = can_remove w \<and>
   encodable (snd (try_body p old nd w)) = encodable w \<and>
   str_of (snd (try_body p old nd w)) = str_of w"
proof (cases "\<exists>doc. files w p = Some (Pdf doc)")
  case False
  then show ?thesis by (simp add: try_body_open_fails)
next
  case True
  then obtain doc where f: "files w p = Some (Pdf doc)" ..
  show ?thesis
  proof (cases "doc = []")
    case True
    with f show ?thesis by (simp add: try_body_no_page)
  next
    case n: False
    show ?thesis
    proof (cases "last_date (get_text (last doc))")
      case None
      from try_body_no_date [OF f n None, of old nd] show ?thesis by simp
    next
      case (Some found)
      show ?thesis
      proof (cases "found = old")
        case False
        show ?thesis
          by (simp only: try_body_mismatch [OF f n Some False, of nd] py_print_case_frame)
      next
        case True
        with Some have l: "last_date (get_text (last doc)) = Some old" by simp
        show ?thesis
        proof (cases "search_for (last doc) old = []")
          case True
          show ?thesis
            by (simp only: try_body_no_rects [OF f n l True, of nd] py_print_case_frame)
        next
          case r: False
          show ?thesis
          proof (cases "can_write w (new_path p)")
            case True
            from try_body_saved [OF f n l r True, of nd] new_path_neq [of p]
            show ?thesis by simp
          next
            case False
            from try_body_save_fails [OF f n l r False, of nd] show ?thesis by simp
          qed
        qed
      qed
    qed
  qed
qed

lemma replace_frame:
  "files (snd (replace_date_in_pdf p old nd w)) p = files w p \<and>
   can_remove (snd (replace_date_in_pdf p old nd w)) = can_remove w \<and>
   encodable (snd (replace_date_in_pdf p old nd w)) = encodable w \<and>
   str_of (snd (replace_date_in_pdf p old nd w)) = str_of w"
proof (cases "try_body p old nd w")
  case (Pair r w1)
  with try_body_frame [of p old nd w] show ?thesis
    by (cases r) (auto simp: replace_date_in_pdf_def except_handler_result)
qed

lemma main_keeps_original: "files (snd (main p old nd False w)) p = files w p"
proof -
  obtain r w1 where rw: "replace_date_in_pdf p old nd w = (r, w1)"
    by (cases "replace_date_in_pdf p old nd w")
  from replace_frame [of p old nd w] rw have fr: "files w1 p = files w p" by simp
  have a: "list_all is_ascii (uni ''SUCCESS: PDF processed successfully'')"
    and c: "list_all is_ascii (uni ''FAILED: Could not process PDF'')"
    by (simp_all add: is_ascii_def uni_def)
  show ?thesis
  proof (cases "files w p = None")
    case True
    then show ?thesis by (simp add: main_def exists_def py_print_def)
  next
    case ex: False
    show ?thesis
    proof (cases r)
      case (Inl e)
      with ex rw fr show ?thesis by (simp add: main_def exists_def)
    next
      case (Inr sn)
      obtain success np where sn: "sn = (success, np)" by (cases sn)
      from ex rw Inr sn fr show ?thesis
        by (cases success)
          (simp_all add: main_def exists_def py_print_ascii [OF a] py_print_ascii [OF c])
    qed
  qed
qed

lemma main_removes:
  assumes "fst (main p old nd True w) = 0" and "can_remove w p"
  shows "files (snd (main p old nd True w)) p = None"
proof -
  obtain r w1 where rw: "replace_date_in_pdf p old nd w = (r, w1)"
    by (cases "replace_date_in_pdf p old nd w")
  from replace_frame [of p old nd w] rw
  have fr: "files w1 p = files w p" "can_remove w1 = can_remove w" by simp_all
  have a: "list_all is_ascii (uni ''SUCCESS: PDF processed successfully'')"
    and b: "list_all is_ascii (uni ''DELETED: Original file removed'')"
    and c: "list_all is_ascii (uni ''FAILED: Could not process PDF'')"
    by (simp_all add: is_ascii_def uni_def)
  have ex: "files w p \<noteq> None"
  proof
    assume "files w p = None"
    then have "fst (main p old nd True w) = 1" by (simp add: main_def exists_def py_print_def)
    with assms(1) show False by simp
  qed
  show ?thesis
  proof (cases r)
    case (Inl e)
    with assms(1) ex rw show ?thesis by (simp add: main_def exists_def)
  next
    case (Inr sn)
    obtain success np where sn: "sn = (success, np)" by (cases sn)
    show ?thesis
    proof (cases success)
      case False
      with assms(1) ex rw Inr sn show ?thesis
        by (simp add: main_def exists_def py_print_ascii [OF c])
    next
      case True
      with ex rw Inr sn fr assms(2) show ?thesis
        by (simp add: main_def exists_def py_print_ascii [OF a] py_print_ascii [OF b]
            os_remove_def)
    qed
  qed
qed

lemma main_warns:
  assumes "\<not> can_remove w p"
    and "list_all (\<lambda>c. is_ascii c \<or> encodable w c)
           ((uni ''WARNING: Could not delete original file: '') @ str_of w (RemoveError p))"
  shows "fst (main p old nd True w) = fst (main p old nd False w) \<and>
         (fst (main p old nd True w) = 0 \<longrightarrow>
            stdout (snd (main p old nd True w)) =
              stdout (snd (main p old nd False w)) @
                [(uni ''WARNING: Could not delete original file: '') @ str_of w (RemoveError p)] \<and>
            files (snd (main p old nd True w)) = files (snd (main p old nd False w)))"
proof -
  obtain r w1 where rw: "replace_date_in_pdf p old nd w = (r, w1)"
    by (cases "replace_date_in_pdf p old nd w")
  from replace_frame [of p old nd w] rw
  have fr: "can_remove w1 = can_remove w" "encodable w1 = encodable w" "str_of w1 = str_of w"
    by simp_all
  have a: "list_all is_ascii (uni ''SUCCESS: PDF processed successfully'')"
    and c: "list_all is_ascii (uni ''FAILED: Could not process PDF'')"
    by (simp_all add: is_ascii_def uni_def)
  show ?thesis
  proof (cases "files w p = None")
    case True
    then show ?thesis by (simp add: main_def exists_def py_print_def)
  next
    case ex: False
    show ?thesis
    proof (cases r)
      case (Inl e)
      with ex rw show ?thesis by (simp add: main_def exists_def)
    next
      case (Inr sn)
      obtain success np where sn: "sn = (success, np)" by (cases sn)
      show ?thesis
      proof (cases success)
        case False
        with ex rw Inr sn show ?thesis
          by (simp add: main_def exists_def py_print_ascii [OF c])
      next
        case True
        have w: "py_print ((uni ''WARNING: Could not delete original file: '') @ str_of w (RemoveError p))
                   (w1\<lparr>stdout := stdout w1 @ [(uni ''SUCCESS: PDF processed successfully'')]\<rparr>) =
                 Some (w1\<lparr>stdout := stdout w1 @ [(uni ''SUCCESS: PDF processed successfully''),
                   (uni ''WARNING: Could not delete original file: '') @ str_of w (RemoveError p)]\<rparr>)"
          using assms(2) fr(2) by (simp add: py_print_def)
        from True ex rw Inr sn fr assms(1) w show ?thesis
          by (simp add: main_def exists_def py_print_ascii [OF a] os_remove_def)
      qed
    qed
  qed
qed

text \<open>
  What holds of the deletion: without the flag the original path holds what it held; with
  the flag, a GUI run that returns normally and a CLI run that exits with status 0 leave
  no file there when it can be removed; when it cannot, the GUI variant behaves as without
  the flag, and so does the exit status of the CLI variant if standard output can encode
  the warning.
\<close>

lemma deletion_outcomes:
  "files (snd (process_pdf nd False p w)) p = files w p \<and>
   files (snd (main p old nd False w)) p = files w p \<and>
   (fst (process_pdf nd True p w) = Inr () \<and> can_remove w p \<longrightarrow>
      files (snd (process_pdf nd True p w)) p = None) \<and>
   (fst (main p old nd True w) = 0 \<and> can_remove w p \<longrightarrow>
      files (snd (main p old nd True w)) p = None) \<and>
   (\<not> can_remove w p \<longrightarrow> process_pdf nd True p w = process_pdf nd False p w) \<and>
   (\<not> can_remove w p \<and>
    list_all (\<lambda>c. is_ascii c \<or> encodable w c)
      ((uni ''WARNING: Could not delete original file: '') @ str_of w (RemoveError p)) \<longrightarrow>
      fst (main p old nd True w) = fst (main p old nd False w) \<and>
      (fst (main p old nd True w) = 0 \<longrightarrow>
         stdout (snd (main p old nd True w)) =
           stdout (snd (main p old nd False w)) @
             [(uni ''WARNING: Could not delete original file: '') @ str_of w (RemoveError p)] \<and>
         files (snd (main p old nd True w)) = files (snd (main p old nd False w))))"
  using process_pdf_keeps_original [of nd p w] main_keeps_original [of p old nd w]
    process_pdf_removes [of nd p w] main_removes [of p old nd w]
    process_pdf_swallows [of w p nd] main_warns [of w p old nd]
  by blast

text \<open>
  C9 fails on the code in its last part. The warning of \<open>main\<close> is printed inside the
  handler of the deletion error, with the text of the exception, which carries the path,
  and no guard of its own (the line with the saved path in \<open>replace_date_in_pdf\<close> has one).
  With a path outside ASCII, a file that cannot be removed and a standard output that
  encodes ASCII only, the replacement succeeds and the run without the flag exits with
  status 0, but the run with the flag exits with status 1.
\<close>

theorem warning_print_flips_verdict:
  "\<not> can_remove locked_desk locked_path \<and>
   fst (replace_date_in_pdf locked_path (uni ''15.03.2024'') (uni ''20.03.2024'') locked_desk) =
     Inr (True, Some (new_path locked_path)) \<and>
   fst (main locked_path (uni ''15.03.2024'') (uni ''20.03.2024'') False locked_desk) = 0 \<and>
   fst (main locked_path (uni ''15.03.2024'') (uni ''20.03.2024'') True locked_desk) = 1 \<and>
   files (snd (main locked_path (uni ''15.03.2024'') (uni ''20.03.2024'') True locked_desk))
     locked_path = Some (Pdf [dated_page])"
  by (simp add: main_def exists_def replace_date_in_pdf_def try_body_def py_print_def
      is_ascii_def process_pdf_def fitz_open_def last_page_def doc_save_def doc_close_def
      os_remove_def Let_def locked_desk_def locked_path_def new_path_def get_text_def
      search_for_def dated_page_def last_date_def date_pattern_def is_digit_def
      digit_ranges_def uni_def is_sep_def)

section \<open>The output path\<close>

lemma lower_char_cases:
  "lower_char c = c \<or>
   (65 \<le> (of_char c :: nat) \<and> (of_char (lower_char c) :: nat) = of_char c + 32)"
proof -
  have "(of_char c :: nat) < 256" by simp
  then show ?thesis
    by (auto simp add: lower_char_def Let_def)
qed

lemma lower_char_dot: "lower_char c = CHR ''.'' \<Longrightarrow> c = CHR ''.''"
  using lower_char_cases [of c] by auto

lemma lower_char_letter:
  assumes "lower_char c = t" and "t = CHR ''p'' \<or> t = CHR ''d'' \<or> t = CHR ''f''"
  shows "c \<noteq> CHR ''.'' \<and> c \<noteq> CHR ''/''"
  using lower_char_cases [of c] assms by auto

lemma endswith_pdf_split:
  assumes "endswith (lower p) ''.pdf''"
  obtains stem a b c where "p = stem @ [CHR ''.'', a, b, c]"
    and "lower_char a = CHR ''p''" and "lower_char b = CHR ''d''" and "lower_char c = CHR ''f''"
proof -
  from assms obtain ys where ys: "map lower_char p = ys @ ''.pdf''"
    by (auto simp: endswith_def lower_def suffix_def)
  then obtain stem ext where p: "p = stem @ ext" and e: "map lower_char ext = ''.pdf''"
    by (auto simp: map_eq_append_conv)
  from e obtain z a b c where ext: "ext = [z, a, b, c]" and
    l: "lower_char z = CHR ''.''" "lower_char a = CHR ''p''" "lower_char b = CHR ''d''"
       "lower_char c = CHR ''f''"
    by (auto simp: map_eq_Cons_conv)
  from l(1) have "z = CHR ''.''" by (rule lower_char_dot)
  with p ext l that show ?thesis by blast
qed

text \<open>
  C4, as stated, fails: the code appends the literal \<open>.pdf\<close>, not the original extension.
  The GUI accepts \<open>report.PDF\<close> (its name ends in the extension, case-insensitively), and
  its output path is \<open>report_new.pdf\<close>, not \<open>report_new.PDF\<close>.
\<close>

theorem output_extension_not_kept:
  "endswith (lower ''report.PDF'') ''.pdf'' \<and>
   new_path ''report.PDF'' = ''report_new.pdf'' \<and>
   spec_output_path ''report.PDF'' = ''report_new.PDF'' \<and>
   new_path ''report.PDF'' \<noteq> spec_output_path ''report.PDF''"
proof -
  have "lower ''report.PDF'' = ''report.pdf''" by code_simp
  then have "endswith (lower ''report.PDF'') ''.pdf''"
    by (simp add: endswith_def suffix_def)
  then show ?thesis
    by (simp add: new_path_def spec_output_path_def splitext_def)
qed

text \<open>
  C4, amended. For a path that ends in \<open>.pdf\<close> case-insensitively, the output path is the
  path without its last four characters (the extension) followed by \<open>_new.pdf\<close>; it is the
  stem, \<open>_new\<close> and the original extension exactly when that extension is spelled \<open>.pdf\<close>.
\<close>

theorem new_path_replaces_extension:
  assumes "endswith (lower p) ''.pdf''"
  shows "\<exists>stem ext. p = stem @ ext \<and> length ext = 4 \<and> lower ext = ''.pdf'' \<and>
           new_path p = stem @ ''_new.pdf'' \<and>
           spec_output_path p = stem @ ''_new'' @ ext \<and>
           (new_path p = spec_output_path p \<longleftrightarrow> ext = ''.pdf'')"
proof -
  from assms obtain stem a b c where p: "p = stem @ [CHR ''.'', a, b, c]"
    and l: "lower_char a = CHR ''p''" "lower_char b = CHR ''d''" "lower_char c = CHR ''f''"
    by (rule endswith_pdf_split)
  from l have na: "a \<noteq> CHR ''.'' \<and> a \<noteq> CHR ''/''" and nb: "b \<noteq> CHR ''.'' \<and> b \<noteq> CHR ''/''"
    and nc: "c \<noteq> CHR ''.'' \<and> c \<noteq> CHR ''/''"
    by (auto dest: lower_char_letter)
  have ld: "lower_char CHR ''.'' = CHR ''.''" by code_simp
  have 1: "length [CHR ''.'', a, b, c] = 4" by simp
  have 2: "lower [CHR ''.'', a, b, c] = ''.pdf''" using l ld by (simp add: lower_def)
  have 3: "new_path p = stem @ ''_new.pdf''" by (simp add: new_path_def p)
  have 4: "spec_output_path p = stem @ ''_new'' @ [CHR ''.'', a, b, c]"
    using na nb nc by (simp add: spec_output_path_def splitext_def p)
  have 5: "new_path p = spec_output_path p \<longleftrightarrow> [CHR ''.'', a, b, c] = ''.pdf''"
    unfolding 3 4 by auto
  from p 1 2 3 4 5 show ?thesis by blast
qed

theorem new_path_replaces_extension_witness:
  "endswith (lower ''report.PDF'') ''.pdf'' \<and>
   (\<exists>stem ext. ''report.PDF'' = stem @ ext \<and> length ext = 4 \<and> lower ext = ''.pdf'' \<and>
      new_path ''report.PDF'' = stem @ ''_new.pdf'' \<and>
      spec_output_path ''report.PDF'' = stem @ ''_new'' @ ext \<and>
      (new_path ''report.PDF'' = spec_output_path ''report.PDF'' \<longleftrightarrow> ext = ''.pdf'')) \<and>
   new_path ''invoice.pdf'' = ''invoice_new.pdf''"
proof -
  have "lower ''report.PDF'' = ''report.pdf''" by code_simp
  then have h: "endswith (lower ''report.PDF'') ''.pdf''"
    by (simp add: endswith_def suffix_def)
  have e: "new_path ''invoice.pdf'' = ''invoice_new.pdf''" by (simp add: new_path_def)
  show ?thesis
    by (rule conjI [OF h conjI [OF new_path_replaces_extension [OF h] e]])
qed

section \<open>The batch driver\<close>

lemma collect_set:
  "set (collect keyword ws) =
     {path_join subdir f | subdir ds fs f. (subdir, ds, fs) \<in> set ws \<and> f \<in> set fs \<and>
        endswith (lower f) ''.pdf'' \<and> contains keyword f}"
  by (auto simp add: collect_def wanted_def)

lemma process_pdf_signals: "signals (snd (process_pdf nd del p w)) = signals w"
  by (auto simp add: process_pdf_def fitz_open_def last_page_def doc_save_def doc_close_def
      os_remove_def Let_def split: option.splits entry.splits)

lemma process_files_signals:
  "fst (process_files nd del n i ps w) = Inr () \<Longrightarrow>
     signals (snd (process_files nd del n i ps w)) =
       signals w @ concat (map (\<lambda>(j, p). [Status (Processing (basename p)),
                                          Progress (progress_value j n)])
                           (zip [i..<i + length ps] ps))"
proof (induction ps arbitrary: i w)
  case Nil
  then show ?case by simp
next
  case (Cons p ps)
  let ?w0 = "emit (Status (Processing (basename p))) w"
  obtain r w1 where pw: "process_pdf nd del p ?w0 = (r, w1)"
    by (cases "process_pdf nd del p ?w0")
  from process_pdf_signals [of nd del p ?w0] pw
  have s1: "signals w1 = signals w @ [Status (Processing (basename p))]"
    by (simp add: emit_def)
  from Cons.prems pw obtain u where r: "r = Inr u" by (cases r) auto
  let ?w2 = "emit (Progress (progress_value i n)) w1"
  from Cons.prems pw r have ok: "fst (process_files nd del n (Suc i) ps ?w2) = Inr ()" by simp
  have up: "[i..<i + length (p # ps)] = i # [Suc i..<Suc i + length ps]"
    by (simp add: upt_rec)
  have cc: "concat (map (\<lambda>(j, p). [Status (Processing (basename p)),
                                    Progress (progress_value j n)])
              (zip [i..<i + length (p # ps)] (p # ps))) =
            [Status (Processing (basename p)), Progress (progress_value i n)] @
            concat (map (\<lambda>(j, p). [Status (Processing (basename p)),
                                    Progress (progress_value j n)])
              (zip [Suc i..<Suc i + length ps] ps))"
    by (simp only: up zip_Cons_Cons list.map concat.simps prod.case)
  have s2: "signals ?w2 =
              signals w @ [Status (Processing (basename p)), Progress (progress_value i n)]"
    using s1 by (simp add: emit_def)
  have "signals (snd (process_files nd del n i (p # ps) w)) =
          signals (snd (process_files nd del n (Suc i) ps ?w2))"
    using pw r by simp
  also have "\<dots> = signals ?w2 @
      concat (map (\<lambda>(j, p). [Status (Processing (basename p)), Progress (progress_value j n)])
        (zip [Suc i..<Suc i + length ps] ps))"
    by (rule Cons.IH [OF ok])
  finally show ?case unfolding cc s2 by simp
qed

lemma run_no_files:
  "collect keyword (walk root_folder w) = [] \<Longrightarrow>
     run root_folder nd keyword del w =
       (Inr (), w\<lparr>signals := signals w @ [Status FilesNotFound, Progress 0, Finished]\<rparr>)"
  by (simp add: run_def emit_def)

lemma run_done:
  assumes "collect keyword (walk root_folder w) \<noteq> []"
    and "fst (run root_folder nd keyword del w) = Inr ()"
  shows "signals (snd (run root_folder nd keyword del w)) =
           signals w @
           concat (map (\<lambda>(j, p). [Status (Processing (basename p)),
                      Progress (progress_value j (length (collect keyword (walk root_folder w))))])
                   (zip [0..<length (collect keyword (walk root_folder w))]
                        (collect keyword (walk root_folder w)))) @
           [Status Done, Finished]"
proof -
  let ?fs = "collect keyword (walk root_folder w)"
  obtain r w1 where pf: "process_files nd del (length ?fs) 0 ?fs w = (r, w1)"
    by (cases "process_files nd del (length ?fs) 0 ?fs w")
  from assms pf obtain u where r: "r = Inr u"
    by (cases r) (auto simp: run_def Let_def)
  from process_files_signals [of nd del "length ?fs" 0 ?fs w] pf r
  have "signals w1 = signals w @
           concat (map (\<lambda>(j, p). [Status (Processing (basename p)),
                      Progress (progress_value j (length ?fs))]) (zip [0..<length ?fs] ?fs))"
    by simp
  with assms(1) pf r show ?thesis by (simp add: run_def Let_def emit_def)
qed

lemma scale_exp_eq:
  "k \<le> n \<Longrightarrow> 0 < q \<Longrightarrow> 2 ^ 52 \<le> q * 2 ^ k \<Longrightarrow> (k = 0 \<or> q * 2 ^ (k - 1) < 2 ^ 52) \<Longrightarrow>
     scale_exp n q = k"
proof (induction k arbitrary: n q)
  case 0
  then show ?case by (cases n) auto
next
  case (Suc k)
  then obtain m where n: "n = Suc m" by (cases n) auto
  have "q * 1 \<le> q * 2 ^ k" using Suc.prems(2) by (intro mult_left_mono) auto
  with Suc.prems(4) have lt: "q < 2 ^ 52" by simp
  have ih: "scale_exp m (2 * q) = k"
  proof (rule Suc.IH)
    show "k \<le> m" using Suc.prems(1) n by simp
    show "0 < 2 * q" using Suc.prems(2) by simp
    show "2 ^ 52 \<le> 2 * q * 2 ^ k" using Suc.prems(3) by (simp add: mult.assoc mult.left_commute)
    show "k = 0 \<or> 2 * q * 2 ^ (k - 1) < 2 ^ 52"
    proof (cases k)
      case 0 then show ?thesis by simp
    next
      case (Suc j)
      with Suc.prems(4) show ?thesis by (simp add: mult.assoc mult.left_commute)
    qed
  qed
  with lt n show ?case by simp
qed

lemma fl_1: "fl 1 = 1"
proof -
  have "scale_exp 1074 1 = 52" by (rule scale_exp_eq) simp_all
  then show ?thesis by (simp add: fl_def round_half_even_def)
qed

lemma fl_100: "fl 100 = 100"
proof -
  have "scale_exp 1074 100 = 46" by (rule scale_exp_eq) simp_all
  then show ?thesis by (simp add: fl_def round_half_even_def)
qed

lemma progress_value_last: "0 < n \<Longrightarrow> progress_value (n - 1) n = 100"
proof -
  assume "0 < n"
  then have q: "(of_nat (n - 1 + 1) :: rat) / of_nat n = 1" by simp
  show ?thesis unfolding progress_value_def q fl_1 by (simp add: fl_100)
qed

lemma fl_29_50: "fl (29 / 50) = 5224175567749775 / 2 ^ 53"
proof -
  have "scale_exp 1074 (29 / 50) = 53" by (rule scale_exp_eq) simp_all
  moreover have "round_half_even (29 / 50 * 2 ^ 53) = 5224175567749775" by code_simp
  ultimately show ?thesis by (simp add: fl_def)
qed

lemma fl_29_50_100: "fl (5224175567749775 / 2 ^ 53 * 100) = 8162774324609023 / 2 ^ 47"
proof -
  have "scale_exp 1074 (5224175567749775 / 2 ^ 53 * 100) = 47" by (rule scale_exp_eq) simp_all
  moreover have "round_half_even (5224175567749775 / 2 ^ 53 * 100 * 2 ^ 47) = 8162774324609023"
    by code_simp
  ultimately show ?thesis by (simp add: fl_def)
qed

lemma progress_28_50: "progress_value 28 50 = 57"
proof -
  have q: "(of_nat (28 + 1) :: rat) / of_nat 50 = 29 / 50" by simp
  have f: "\<lfloor>(8162774324609023 :: rat) / 2 ^ 47\<rfloor> = 57" by code_simp
  show ?thesis unfolding progress_value_def q fl_29_50 fl_29_50_100 by (rule f)
qed

text \<open>
  C8 fails on the code in its last part. The progress after a file is
  \<open>int((idx + 1) / total * 100)\<close>, computed on floats: in a batch of 50 files, the 29th file
  (\<open>idx = 28\<close>) is followed by the progress 57, while 29 of 50 files are 58 per cent.
\<close>

theorem progress_below_percentage:
  "progress_value 28 50 = 57 \<and>
   (100 * (28 + 1)) div 50 = (58 :: int) \<and>
   signals (snd (process_files (uni ''20.03.2024'') False 50 28 [''report.pdf'']
                   (desk [undated_page]))) =
     [Status (Processing ''report.pdf''), Progress 57]"
proof -
  note p = progress_28_50
  have b: "basename ''report.pdf'' = ''report.pdf''" by (simp add: basename_def)
  have "signals (snd (process_files (uni ''20.03.2024'') False 50 28 [''report.pdf'']
                   (desk [undated_page]))) =
     [Status (Processing ''report.pdf''), Progress (progress_value 28 50)]"
    unfolding process_files.simps b
    by (simp add: emit_def process_pdf_def fitz_open_def last_page_def doc_save_def
        doc_close_def Let_def desk_def new_path_def get_text_def undated_page_def last_date_def
        date_pattern_def is_digit_def digit_ranges_def uni_def is_sep_def)
  with p show ?thesis by simp
qed

section \<open>Both entry points take the last match\<close>

text \<open>
  C1. When the text of the last page holds a substring that matches the date pattern, the
  old date of both entry points is the match of \<open>re.finditer\<close> with the greatest offset: it
  is the ten characters of the text at that offset, and the pattern matches nowhere behind
  it. \<open>process_pdf\<close> and \<open>replace_date_in_pdf\<close> edit the last rectangle the library returns
  for this date, and \<open>replace_date_in_pdf\<close> rejects every other expected date, naming this
  one as found when standard output can encode the line.
\<close>

theorem last_match_selected:
  assumes "\<exists>i. match_prefix date_pattern (drop i (get_text (last doc)))"
    and "files w p = Some (Pdf doc)" and "doc \<noteq> []"
  shows "\<exists>k d. last_date (get_text (last doc)) = Some d \<and>
           (k, d) \<in> set (finditer 0 (get_text (last doc))) \<and>
           (\<forall>m \<in> set (finditer 0 (get_text (last doc))). fst m \<le> k) \<and>
           d = take 10 (drop k (get_text (last doc))) \<and>
           (\<forall>j. match_prefix date_pattern (drop j (get_text (last doc))) \<longrightarrow> j < k + 10) \<and>
           (can_write w (new_path p) \<and> search_for (last doc) d \<noteq> [] \<longrightarrow>
              files (snd (process_pdf nd del p w)) (new_path p) =
                Some (Pdf (butlast doc @ [(last doc)\<lparr>calls := calls (last doc) @
                  [AddRedactAnnot (last (search_for (last doc) d)) (1, 1, 1), ApplyRedactions,
                   InsertText (rect_tl (last (search_for (last doc) d))) nd 12 (0, 0, 0)]\<rparr>])) \<and>
              files (snd (replace_date_in_pdf p d nd w)) (new_path p) =
                Some (Pdf (butlast doc @ [(last doc)\<lparr>calls := calls (last doc) @
                  [AddRedactAnnot (last (search_for (last doc) d)) (1, 1, 1), ApplyRedactions,
                   InsertText (x0 (last (search_for (last doc) d)),
                               y1 (last (search_for (last doc) d)) + 5) nd 12 (0, 0, 0)]\<rparr>]))) \<and>
           (old \<noteq> d \<longrightarrow>
              fst (replace_date_in_pdf p old nd w) = Inr (False, None) \<and>
              files (snd (replace_date_in_pdf p old nd w)) = files w \<and>
              (list_all (\<lambda>c. is_ascii c \<or> encodable w c) (old @ d) \<longrightarrow>
                 stdout (snd (replace_date_in_pdf p old nd w)) =
                   stdout w @ [(uni ''ERROR: Expected date '') @ old @ (uni '', but found '') @ d]))"
proof -
  from last_date_is_last_match [OF assms(1)] obtain k d where
    l: "last_date (get_text (last doc)) = Some d"
    and m: "(k, d) \<in> set (finditer 0 (get_text (last doc)))"
    and g: "\<forall>m \<in> set (finditer 0 (get_text (last doc))). fst m \<le> k"
    and t: "d = take 10 (drop k (get_text (last doc)))"
    and c: "\<forall>j. match_prefix date_pattern (drop j (get_text (last doc))) \<longrightarrow> j < k + 10"
    by blast
  have e: "can_write w (new_path p) \<and> search_for (last doc) d \<noteq> [] \<longrightarrow>
              files (snd (process_pdf nd del p w)) (new_path p) =
                Some (Pdf (butlast doc @ [(last doc)\<lparr>calls := calls (last doc) @
                  [AddRedactAnnot (last (search_for (last doc) d)) (1, 1, 1), ApplyRedactions,
                   InsertText (rect_tl (last (search_for (last doc) d))) nd 12 (0, 0, 0)]\<rparr>])) \<and>
              files (snd (replace_date_in_pdf p d nd w)) (new_path p) =
                Some (Pdf (butlast doc @ [(last doc)\<lparr>calls := calls (last doc) @
                  [AddRedactAnnot (last (search_for (last doc) d)) (1, 1, 1), ApplyRedactions,
                   InsertText (x0 (last (search_for (last doc) d)),
                               y1 (last (search_for (last doc) d)) + 5) nd 12 (0, 0, 0)]\<rparr>]))"
  proof (intro impI, elim conjE)
    assume cw: "can_write w (new_path p)" and r: "search_for (last doc) d \<noteq> []"
    from process_pdf_saved [OF assms(2,3) cw l r, of nd del]
      replace_saved [OF assms(2,3) l r cw, of nd]
    show "files (snd (process_pdf nd del p w)) (new_path p) =
                Some (Pdf (butlast doc @ [(last doc)\<lparr>calls := calls (last doc) @
                  [AddRedactAnnot (last (search_for (last doc) d)) (1, 1, 1), ApplyRedactions,
                   InsertText (rect_tl (last (search_for (last doc) d))) nd 12 (0, 0, 0)]\<rparr>])) \<and>
              files (snd (replace_date_in_pdf p d nd w)) (new_path p) =
                Some (Pdf (butlast doc @ [(last doc)\<lparr>calls := calls (last doc) @
                  [AddRedactAnnot (last (search_for (last doc) d)) (1, 1, 1), ApplyRedactions,
                   InsertText (x0 (last (search_for (last doc) d)),
                               y1 (last (search_for (last doc) d)) + 5) nd 12 (0, 0, 0)]\<rparr>]))"
      by simp
  qed
  have r: "old \<noteq> d \<longrightarrow>
              fst (replace_date_in_pdf p old nd w) = Inr (False, None) \<and>
              files (snd (replace_date_in_pdf p old nd w)) = files w \<and>
              (list_all (\<lambda>c. is_ascii c \<or> encodable w c) (old @ d) \<longrightarrow>
                 stdout (snd (replace_date_in_pdf p old nd w)) =
                   stdout w @ [(uni ''ERROR: Expected date '') @ old @ (uni '', but found '') @ d])"
  proof
    assume "old \<noteq> d"
    then have "d \<noteq> old" by simp
    from replace_mismatch [OF assms(2,3) l this, of nd]
    show "fst (replace_date_in_pdf p old nd w) = Inr (False, None) \<and>
              files (snd (replace_date_in_pdf p old nd w)) = files w \<and>
              (list_all (\<lambda>c. is_ascii c \<or> encodable w c) (old @ d) \<longrightarrow>
                 stdout (snd (replace_date_in_pdf p old nd w)) =
                   stdout w @ [(uni ''ERROR: Expected date '') @ old @ (uni '', but found '') @ d])"
      by auto
  qed
  from l m g t c e r show ?thesis by blast
qed

theorem last_match_selected_witness:
  "(\<exists>i. match_prefix date_pattern (drop i (get_text (last [dated_page])))) \<and>
   files (desk [dated_page]) ''report.pdf'' = Some (Pdf [dated_page]) \<and>
   [dated_page] \<noteq> [] \<and>
   (\<exists>k d. last_date (get_text (last [dated_page])) = Some d \<and>
           (k, d) \<in> set (finditer 0 (get_text (last [dated_page]))) \<and>
           (\<forall>m \<in> set (finditer 0 (get_text (last [dated_page]))). fst m \<le> k) \<and>
           d = take 10 (drop k (get_text (last [dated_page]))) \<and>
           (\<forall>j. match_prefix date_pattern (drop j (get_text (last [dated_page]))) \<longrightarrow> j < k + 10) \<and>
           (can_write (desk [dated_page]) (new_path ''report.pdf'') \<and> search_for (last [dated_page]) d \<noteq> [] \<longrightarrow>
              files (snd (process_pdf (uni ''20.03.2024'') False ''report.pdf'' (desk [dated_page]))) (new_path ''report.pdf'') =
                Some (Pdf (butlast [dated_page] @ [(last [dated_page])\<lparr>calls := calls (last [dated_page]) @
                  [AddRedactAnnot (last (search_for (last [dated_page]) d)) (1, 1, 1), ApplyRedactions,
                   InsertText (rect_tl (last (search_for (last [dated_page]) d))) (uni ''20.03.2024'') 12 (0, 0, 0)]\<rparr>])) \<and>
              files (snd (replace_date_in_pdf ''report.pdf'' d (uni ''20.03.2024'') (desk [dated_page]))) (new_path ''report.pdf'') =
                Some (Pdf (butlast [dated_page] @ [(last [dated_page])\<lparr>calls := calls (last [dated_page]) @
                  [AddRedactAnnot (last (search_for (last [dated_page]) d)) (1, 1, 1), ApplyRedactions,
                   InsertText (x0 (last (search_for (last [dated_page]) d)),
                               y1 (last (search_for (last [dated_page]) d)) + 5) (uni ''20.03.2024'') 12 (0, 0, 0)]\<rparr>]))) \<and>
           ((uni ''01.03.2024'') \<noteq> d \<longrightarrow>
              fst (replace_date_in_pdf ''report.pdf'' (uni ''01.03.2024'') (uni ''20.03.2024'') (desk [dated_page])) = Inr (False, None) \<and>
              files (snd (replace_date_in_pdf ''report.pdf'' (uni ''01.03.2024'') (uni ''20.03.2024'') (desk [dated_page]))) = files (desk [dated_page]) \<and>
              (list_all (\<lambda>c. is_ascii c \<or> encodable (desk [dated_page]) c) ((uni ''01.03.2024'') @ d) \<longrightarrow>
                 stdout (snd (replace_date_in_pdf ''report.pdf'' (uni ''01.03.2024'') (uni ''20.03.2024'') (desk [dated_page]))) =
                   stdout (desk [dated_page]) @ [(uni ''ERROR: Expected date '') @ (uni ''01.03.2024'') @ (uni '', but found '') @ d]))) \<and>
   finditer 0 (get_text (last [dated_page])) = [(8, (uni ''01.03.2024'')), (27, (uni ''15.03.2024''))] \<and>
   last_date (get_text (last [dated_page])) = Some (uni ''15.03.2024'') \<and>
   can_write (desk [dated_page]) (new_path ''report.pdf'') \<and>
   search_for (last [dated_page]) (uni ''15.03.2024'') \<noteq> [] \<and>
   (uni ''01.03.2024'') \<noteq> (uni ''15.03.2024'') \<and>
   list_all (\<lambda>c. is_ascii c \<or> encodable (desk [dated_page]) c)
     (uni ''01.03.2024'' @ uni ''15.03.2024'')"
proof -
  have h: "\<exists>i. match_prefix date_pattern (drop i (get_text (last [dated_page])))"
    by (rule exI [of _ 27])
      (simp add: get_text_def dated_page_def date_pattern_def is_digit_def digit_ranges_def uni_def is_sep_def)
  have n: "[dated_page] \<noteq> []" by simp
  have c: "finditer 0 (get_text (last [dated_page])) =
             [(8, (uni ''01.03.2024'')), (27, (uni ''15.03.2024''))] \<and>
           last_date (get_text (last [dated_page])) = Some (uni ''15.03.2024'') \<and>
           can_write (desk [dated_page]) (new_path ''report.pdf'') \<and>
           search_for (last [dated_page]) (uni ''15.03.2024'') \<noteq> [] \<and>
           (uni ''01.03.2024'') \<noteq> (uni ''15.03.2024'') \<and>
           list_all (\<lambda>c. is_ascii c \<or> encodable (desk [dated_page]) c)
     (uni ''01.03.2024'' @ uni ''15.03.2024'')"
    using dated_page_facts(2,4)
    by (simp add: last_date_def get_text_def dated_page_def date_pattern_def is_digit_def digit_ranges_def uni_def
        is_sep_def is_ascii_def)
  show ?thesis
    by (rule conjI [OF h conjI [OF dated_page_facts(1) conjI [OF n
          conjI [OF last_match_selected [OF h dated_page_facts(1) n] c]]]])
qed

end
